theory Spec2Isabelle
  imports Complex_Main "HOL-Library.Multiset"
begin

section \<open>Ragged arrays: a model of \<open>clouddrift/ragged.py\<close>\<close>

text \<open>
  A ragged array is a flat sequence together with a row-size vector. Flat arrays are
  lists; the row sizes handed to the array functions are natural numbers (the data
  model's non-negative integers), while the values of a dataset's variables, its row-size
  variable among them, are integers; the integers NumPy computes (differences of
  indices, slice bounds, offsets) are \<open>int\<close>. Every \<open>raise\<close> of the source, and every
  exception of a NumPy, xarray or Python primitive the source can reach, is a value of
  \<open>error\<close>; the string of a \<open>ValueError\<close> or \<open>TypeError\<close> names the condition. A function
  that can raise returns \<open>error + result\<close>.
\<close>

datatype error =
    ValueError string
  | TypeError string
  | IndexError
  | AxisError
  | ZeroDivisionError
  | KeyError

subsection \<open>NumPy and Python primitives on one-dimensional data\<close>

text \<open>\<open>np.diff\<close>: \<open>out[i] = x[i+1] - x[i]\<close>, one element fewer; empty for fewer than two.\<close>

definition np_diff :: "'a::minus list \<Rightarrow> 'a list" where
  "np_diff xs = map (\<lambda>(a, b). b - a) (zip xs (tl xs))"

text \<open>\<open>np.where(mask)[0]\<close>: the positions of the true entries, ascending.\<close>

definition np_where :: "bool list \<Rightarrow> nat list" where
  "np_where bs = filter (\<lambda>i. bs ! i) [0..<length bs]"

text \<open>\<open>np.cumsum\<close>: running sums, started from an accumulator.\<close>

fun cumsum_from :: "'a::monoid_add \<Rightarrow> 'a list \<Rightarrow> 'a list" where
  "cumsum_from acc [] = []"
| "cumsum_from acc (x # xs) = (acc + x) # cumsum_from (acc + x) xs"

definition np_cumsum :: "'a::monoid_add list \<Rightarrow> 'a list" where
  "np_cumsum xs = cumsum_from 0 xs"

text \<open>
  A Python slice \<open>xs[start:end]\<close> with integer bounds: a negative bound counts from
  the end, and both bounds are clamped to the sequence.
\<close>

definition slice_bound :: "nat \<Rightarrow> int \<Rightarrow> nat" where
  "slice_bound n i = (if i < 0 then nat (max (int n + i) 0) else min (nat i) n)"

definition py_slice :: "'a list \<Rightarrow> int \<Rightarrow> int \<Rightarrow> 'a list" where
  "py_slice xs s e =
     (let lo = slice_bound (length xs) s; hi = slice_bound (length xs) e
      in take (hi - lo) (drop lo xs))"

text \<open>
  \<open>np.concatenate\<close> of a list of one-dimensional arrays; NumPy refuses an empty list.
\<close>

definition np_concatenate1 :: "'a list list \<Rightarrow> error + 'a list" where
  "np_concatenate1 xss =
     (if xss = [] then Inl (ValueError ''need at least one array to concatenate'')
      else Inr (concat xss))"

subsection \<open>Index translator\<close>

text \<open>\<open>rowsize_to_index\<close>: \<open>np.cumsum(np.insert(np.array(rowsize), 0, 0))\<close>.\<close>

definition rowsize_to_index :: "nat list \<Rightarrow> nat list" where
  "rowsize_to_index rowsize = np_cumsum (0 # rowsize)"

subsection \<open>Segmenter\<close>

text \<open>
  The branch of \<open>segment\<close> for \<open>rowsize is None\<close>. The tolerance and the elements share
  an ordered ring; the conversion of a \<open>timedelta\<close> tolerance is not modelled.
\<close>

definition segment_flat :: "'a::linordered_idom list \<Rightarrow> 'a \<Rightarrow> int list" where
  "segment_flat x tolerance =
     (let positive_tol = (tolerance \<ge> 0);
          exceeds_tolerance =
            (if positive_tol then map (\<lambda>d. d > tolerance) (np_diff x)
             else map (\<lambda>d. d < tolerance) (np_diff x));
          segment_sizes = np_diff (0 # map (\<lambda>i. int i + 1) (np_where exceeds_tolerance));
          segment_sizes = segment_sizes @ [int (length x) - sum_list segment_sizes]
      in segment_sizes)"

text \<open>
  The loop of the other branch: \<open>start\<close> runs over the rows, each row is segmented on its
  own with \<open>rowsize = None\<close>.
\<close>

fun segment_rows :: "'a::linordered_idom list \<Rightarrow> 'a \<Rightarrow> int \<Rightarrow> nat list \<Rightarrow> int list list" where
  "segment_rows x tolerance start [] = []"
| "segment_rows x tolerance start (r # rowsize) =
     (let end = start + int r
      in segment_flat (py_slice x start end) tolerance
         # segment_rows x tolerance end rowsize)"

definition segment :: "'a::linordered_idom list \<Rightarrow> 'a \<Rightarrow> nat list option \<Rightarrow> error + int list" where
  "segment x tolerance rowsize =
     (case rowsize of
        None \<Rightarrow> Inr (segment_flat x tolerance)
      | Some rs \<Rightarrow>
          if \<not> (sum_list rs = length x)
          then Inl (ValueError ''The sum of rowsize must equal the length of x.'')
          else np_concatenate1 (segment_rows x tolerance 0 rs))"


subsection \<open>Chunker\<close>

text \<open>
  A two-dimensional NumPy array: its shape and its rows. The shape is kept because an
  array with no rows still has a width.
\<close>

record 'a array2d =
  nrows :: nat
  ncols :: nat
  cells :: "'a list list"

text \<open>
  \<open>res[n] = v\<close> for a row of \<open>ncols\<close> elements: NumPy broadcasts a one-element value
  and refuses every other length.
\<close>

definition assign_row :: "nat \<Rightarrow> 'a list \<Rightarrow> error + 'a list" where
  "assign_row width v =
     (if length v = width then Inr v
      else if length v = 1 then Inr (replicate width (hd v))
      else Inl (ValueError ''could not broadcast input array''))"

text \<open>
  The loop \<open>for n in range(num_chunks)\<close> of \<open>chunk\<close>, with \<open>start\<close> threaded through;
  the last argument counts the iterations left.
\<close>

fun chunk_loop :: "'a list \<Rightarrow> int \<Rightarrow> int \<Rightarrow> int \<Rightarrow> nat \<Rightarrow> error + 'a list list" where
  "chunk_loop x len overlap start 0 = Inr []"
| "chunk_loop x len overlap start (Suc n) =
     (let end = start + len
      in case assign_row (nat len) (py_slice x start end) of
           Inl e \<Rightarrow> Inl e
         | Inr row \<Rightarrow>
             (case chunk_loop x len overlap (end - overlap) n of
                Inl e \<Rightarrow> Inl e
              | Inr rest \<Rightarrow> Inr (row # rest)))"

text \<open>
  \<open>chunk(x, length, overlap, align)\<close>. Python evaluates in this order: the floor
  division (which faults when \<open>length = overlap\<close>, if it is reached), \<open>np.empty\<close> (which
  refuses a negative dimension), the alignment, the loop.
\<close>

definition chunk :: "'a list \<Rightarrow> int \<Rightarrow> int \<Rightarrow> string \<Rightarrow> error + 'a array2d" where
  "chunk x len overlap align =
     (if int (length x) \<ge> len \<and> len - overlap = 0 then Inl ZeroDivisionError
      else
        let num_chunks = (if int (length x) \<ge> len
                          then (int (length x) - len) div (len - overlap) + 1 else 0);
            remainder = int (length x) - num_chunks * len + (num_chunks - 1) * overlap
        in if num_chunks < 0 \<or> len < 0
           then Inl (ValueError ''negative dimensions are not allowed'')
           else
             case (if align = ''start'' then Inr 0
                   else if align = ''middle'' then Inr (remainder div 2)
                   else if align = ''end'' then Inr remainder
                   else Inl (ValueError ''align must be one of start, middle, or end.''))
             of Inl e \<Rightarrow> Inl e
              | Inr start \<Rightarrow>
                  (case chunk_loop x len overlap start (nat num_chunks) of
                     Inl e \<Rightarrow> Inl e
                   | Inr rs \<Rightarrow>
                       Inr \<lparr>nrows = nat num_chunks, ncols = nat len, cells = rs\<rparr>))"

text \<open>
  The specification's formulas for the number of chunks, the remainder and the offset of
  the first window.
\<close>

definition spec_num_chunks :: "nat \<Rightarrow> int \<Rightarrow> int \<Rightarrow> int" where
  "spec_num_chunks n len overlap =
     (if int n \<ge> len then (int n - len) div (len - overlap) + 1 else 0)"

definition spec_remainder :: "nat \<Rightarrow> int \<Rightarrow> int \<Rightarrow> int" where
  "spec_remainder n len overlap =
     int n - spec_num_chunks n len overlap * len
       + (spec_num_chunks n len overlap - 1) * overlap"

definition spec_first_start :: "string \<Rightarrow> int \<Rightarrow> int" where
  "spec_first_start align remainder =
     (if align = ''start'' then 0
      else if align = ''end'' then remainder
      else remainder div 2)"

text \<open>The window of \<open>len\<close> elements of \<open>x\<close> that starts at offset \<open>s\<close>.\<close>

definition window :: "'a list \<Rightarrow> int \<Rightarrow> int \<Rightarrow> 'a list" where
  "window x len s = take (nat len) (drop (nat s) x)"

definition spec_chunks :: "'a list \<Rightarrow> int \<Rightarrow> int \<Rightarrow> string \<Rightarrow> 'a list list" where
  "spec_chunks x len overlap align =
     map (\<lambda>j. window x len
                 (spec_first_start align (spec_remainder (length x) len overlap)
                    + int j * (len - overlap)))
       [0..<nat (spec_num_chunks (length x) len overlap)]"

subsection \<open>Observation index to row index\<close>








subsection \<open>Row unpacker and repacker\<close>

text \<open>
  Python indexing \<open>xs[i]\<close> of a list: a negative index counts from the end, an index out
  of range raises \<open>IndexError\<close>.
\<close>

definition py_index :: "'a list \<Rightarrow> int \<Rightarrow> error + 'a" where
  "py_index xs i =
     (if 0 \<le> i \<and> i < int (length xs) then Inr (xs ! nat i)
      else if i < 0 \<and> - int (length xs) \<le> i then Inr (xs ! nat (int (length xs) + i))
      else Inl IndexError)"

text \<open>A list comprehension over a fallible expression stops at the first exception.\<close>

fun sequence_sum :: "('e + 'a) list \<Rightarrow> 'e + 'a list" where
  "sequence_sum [] = Inr []"
| "sequence_sum (Inl e # rs) = Inl e"
| "sequence_sum (Inr v # rs) =
     (case sequence_sum rs of Inl e \<Rightarrow> Inl e | Inr vs \<Rightarrow> Inr (v # vs))"

text \<open>
  \<open>np.split(a, indices)\<close> along the first axis: with \<open>div_points = [0] + indices + [len(a)]\<close>
  the pieces are the slices \<open>a[div_points[k] : div_points[k+1]]\<close>.
\<close>

definition np_split :: "'a list \<Rightarrow> nat list \<Rightarrow> 'a list list" where
  "np_split a indices =
     (let div_points = 0 # indices @ [length a]
      in map (\<lambda>(st, en). py_slice a (int st) (int en)) (zip div_points (tl div_points)))"

text \<open>The \<open>rows\<close> argument: \<open>None\<close>, one integer, or a sequence of integers.\<close>

datatype rows_arg = AllRows | OneRow int | SomeRows "int list"











subsection \<open>N-dimensional arrays\<close>

text \<open>
  A NumPy array of any rank as a nested sequence: a \<open>Leaf\<close> is a zero-dimensional array
  (or one cell), a \<open>Node\<close> holds the sub-arrays along the first axis. NumPy arrays are
  rectangular, so the shape is read off the first sub-array at each level.
\<close>

datatype 'a nd = Leaf 'a | Node "'a nd list"

fun children :: "'a nd \<Rightarrow> 'a nd list" where
  "children (Node cs) = cs"
| "children (Leaf a) = []"

fun nd_shape :: "'a nd \<Rightarrow> nat list" where
  "nd_shape (Leaf a) = []"
| "nd_shape (Node []) = [0]"
| "nd_shape (Node (c # cs)) = Suc (length cs) # nd_shape c"

text \<open>\<open>len(a)\<close>: the extent along the first axis; a zero-dimensional array has none.\<close>

fun nd_len :: "'a nd \<Rightarrow> error + nat" where
  "nd_len (Node cs) = Inr (length cs)"
| "nd_len (Leaf a) = Inl (TypeError ''len() of unsized object'')"

text \<open>A one-dimensional array of the given cells.\<close>

definition array1 :: "'a list \<Rightarrow> 'a nd" where
  "array1 xs = Node (map Leaf xs)"

text \<open>
  \<open>np.split(a, indices, axis)\<close> for an axis already checked against the rank: along
  axis \<open>0\<close> the sub-arrays are sliced; along a later axis every sub-array is split and
  the \<open>j\<close>-th pieces are gathered. There are \<open>len(indices) + 1\<close> pieces.
\<close>

fun nd_split :: "nat \<Rightarrow> nat list \<Rightarrow> 'a nd \<Rightarrow> 'a nd list" where
  "nd_split 0 indices (Node cs) = map Node (np_split cs indices)"
| "nd_split (Suc k) indices (Node cs) =
     map (\<lambda>j. Node (map (\<lambda>c. nd_split k indices c ! j) cs)) [0..<Suc (length indices)]"
| "nd_split k indices (Leaf a) = replicate (Suc (length indices)) (Leaf a)"

text \<open>
  \<open>unpack(ragged_array, rowsize, rows, axis)\<close> on an array of any rank. \<open>np.split\<close>
  reads \<open>ary.shape[axis]\<close> first, which raises \<open>IndexError\<close> for an axis outside the
  rank; a negative axis counts from the last.
\<close>

definition unpack_nd ::
  "'a nd \<Rightarrow> nat list \<Rightarrow> rows_arg \<Rightarrow> int \<Rightarrow> error + 'a nd list" where
  "unpack_nd ragged_array rowsize rows axis =
     (let indices = rowsize_to_index rowsize;
          rows' = (case rows of
                     AllRows \<Rightarrow> map int [0..<length indices - 1]
                   | OneRow i \<Rightarrow> [i]
                   | SomeRows l \<Rightarrow> l);
          ndim = int (length (nd_shape ragged_array))
      in if \<not> (- ndim \<le> axis \<and> axis < ndim) then Inl IndexError
         else
           let unpacked = nd_split (nat (if axis < 0 then axis + ndim else axis))
                            (butlast (tl indices)) ragged_array
           in sequence_sum (map (py_index unpacked) rows'))"

text \<open>
  Joining arrays of equal rank along an axis below the rank: along axis \<open>0\<close> the
  sub-arrays follow one another; along a later axis the \<open>i\<close>-th sub-arrays are joined.
\<close>

fun nd_concat :: "nat \<Rightarrow> 'a nd list \<Rightarrow> 'a nd" where
  "nd_concat 0 arrs = Node (concat (map children arrs))"
| "nd_concat (Suc k) arrs =
     Node (map (\<lambda>i. nd_concat k (map (\<lambda>a. children a ! i) arrs))
             [0..<length (children (hd arrs))])"

text \<open>
  \<open>np.concatenate(arrays, axis)\<close>, with NumPy's checks in NumPy's order: an empty
  sequence, zero-dimensional arrays, the axis against the rank of the first array, equal
  ranks, equal extents off the axis.
\<close>

definition np_concatenate :: "'a nd list \<Rightarrow> int \<Rightarrow> error + 'a nd" where
  "np_concatenate arrs axis =
     (if arrs = [] then Inl (ValueError ''need at least one array to concatenate'')
      else
        let shapes = map nd_shape arrs; ndim = int (length (hd shapes))
        in if ndim = 0
           then Inl (ValueError ''zero-dimensional arrays cannot be concatenated'')
           else if \<not> (- ndim \<le> axis \<and> axis < ndim) then Inl AxisError
           else
             let k = nat (if axis < 0 then axis + ndim else axis)
             in if \<exists>s \<in> set shapes. length s \<noteq> length (hd shapes)
                then Inl (ValueError ''all the input arrays must have same number of dimensions'')
                else if \<exists>s \<in> set shapes. take k s @ drop (Suc k) s
                                         \<noteq> take k (hd shapes) @ drop (Suc k) (hd shapes)
                then Inl (ValueError ''all the input array dimensions except for the concatenation axis must match exactly'')
                else Inr (nd_concat k arrs))"

subsection \<open>Ragged apply engine\<close>

text \<open>
  What a row-wise function returns: one value or a tuple of values, each value a scalar
  (not iterable) or an array. The function itself maps the row slices, one per input
  array, to such a result or to the exception it raises; extra positional and keyword
  arguments are part of the function.
\<close>

datatype 'b item = Scalar 'b | Array "'b nd"

datatype 'b ret = Single "'b item" | Tuple "'b item list"

text \<open>What \<open>apply_ragged\<close> returns: one array, or a tuple of arrays.\<close>

datatype 'b out = OutArray "'b nd" | OutTuple "'b nd list"

text \<open>
  \<open>x if isinstance(x, Iterable) else [x]\<close> on one value: a scalar becomes the
  one-element sequence, an array is kept.
\<close>

fun wrap_item :: "'b item \<Rightarrow> 'b nd" where
  "wrap_item (Scalar v) = Node [Leaf v]"
| "wrap_item (Array a) = a"

text \<open>
  A value as NumPy converts it to an array: a tuple becomes the array of its entries,
  which must have one shape.
\<close>

fun item_array :: "'b item \<Rightarrow> 'b nd" where
  "item_array (Scalar v) = Leaf v"
| "item_array (Array a) = a"

fun as_array :: "'b ret \<Rightarrow> error + 'b nd" where
  "as_array (Single it) = Inr (wrap_item it)"
| "as_array (Tuple its) =
     (if \<exists>it \<in> set its. nd_shape (item_array it) \<noteq> nd_shape (item_array (hd its))
      then Inl (ValueError ''inhomogeneous shape'')
      else Inr (Node (map item_array its)))"

text \<open>
  \<open>r[i] if isinstance(r[i], Iterable) else [r[i]]\<close> for one row's result \<open>r\<close>: a tuple is
  indexed; an array is indexed along its first axis, where a cell is a scalar and gets
  wrapped, and a zero-dimensional array cannot be indexed.
\<close>

fun wrap_cell :: "'b nd \<Rightarrow> 'b nd" where
  "wrap_cell (Leaf v) = Node [Leaf v]"
| "wrap_cell (Node cs) = Node cs"

fun output_at :: "int \<Rightarrow> 'b ret \<Rightarrow> error + 'b nd" where
  "output_at i (Tuple its) =
     (case py_index its i of Inl e \<Rightarrow> Inl e | Inr it \<Rightarrow> Inr (wrap_item it))"
| "output_at i (Single (Array (Node cs))) =
     (case py_index cs i of Inl e \<Rightarrow> Inl e | Inr c \<Rightarrow> Inr (wrap_cell c))"
| "output_at i (Single (Array (Leaf v))) = Inl IndexError"
| "output_at i (Single (Scalar v)) =
     (case py_index [Leaf v] i of Inl e \<Rightarrow> Inl e | Inr c \<Rightarrow> Inr (wrap_cell c))"

text \<open>
  The two concatenations of the source: along \<open>axis\<close> when the first value is longer
  than one element, along axis \<open>0\<close> otherwise.
\<close>

definition concat_outputs :: "'b nd list \<Rightarrow> int \<Rightarrow> error + 'b nd" where
  "concat_outputs result axis =
     (case nd_len (hd result) of
        Inl e \<Rightarrow> Inl e
      | Inr n \<Rightarrow> if n > 1 then np_concatenate result axis else np_concatenate result 0)"

text \<open>
  The validation loop of \<open>apply_ragged\<close>: \<open>arr.shape[axis]\<close> is tuple indexing
  (\<open>IndexError\<close> outside the rank), then the sum of the row sizes is compared.
\<close>

fun validate_rowsize :: "'a nd list \<Rightarrow> nat list \<Rightarrow> int \<Rightarrow> error + unit" where
  "validate_rowsize [] rowsize axis = Inr ()"
| "validate_rowsize (arr # arrays) rowsize axis =
     (case py_index (nd_shape arr) axis of
        Inl e \<Rightarrow> Inl e
      | Inr n \<Rightarrow>
          if \<not> (sum_list rowsize = n)
          then Inl (ValueError ''The sum of rowsize must equal the length of arr.'')
          else validate_rowsize arrays rowsize axis)"

text \<open>
  The reassembly of \<open>apply_ragged\<close>, from the results of the tasks in row order.
  \<open>res[0]\<close> raises \<open>IndexError\<close> when no row was processed.
\<close>

definition reassemble :: "'b ret list \<Rightarrow> int \<Rightarrow> error + 'b out" where
  "reassemble res axis =
     (case res of
        [] \<Rightarrow> Inl IndexError
      | Tuple its # _ \<Rightarrow>
          (case sequence_sum
                  (map (\<lambda>i. case sequence_sum (map (output_at (int i)) res) of
                               Inl e \<Rightarrow> Inl e
                             | Inr result \<Rightarrow> concat_outputs result axis)
                     [0..<length its])
           of Inl e \<Rightarrow> Inl e | Inr outputs \<Rightarrow> Inr (OutTuple outputs))
      | Single it # _ \<Rightarrow>
          (case nd_len (wrap_item it) of
             Inl e \<Rightarrow> Inl e
           | Inr n \<Rightarrow>
               (case sequence_sum (map as_array res) of
                  Inl e \<Rightarrow> Inl e
                | Inr arrs \<Rightarrow>
                    (case (if n > 1 then np_concatenate arrs axis else np_concatenate arrs 0)
                     of Inl e \<Rightarrow> Inl e | Inr a \<Rightarrow> Inr (OutArray a)))))"

text \<open>
  \<open>apply_ragged(func, arrays, rowsize, rows=rows, axis=axis)\<close> for a list of arrays.
  The executor runs the tasks independently and the results are collected in the order
  of submission, so the first task in row order that raises decides the exception.
  Every input array is unpacked into one slice per selected row, so \<open>arrays[i][j]\<close> is
  always in range.
\<close>

definition apply_ragged ::
  "('a nd list \<Rightarrow> error + 'b ret) \<Rightarrow> 'a nd list \<Rightarrow> nat list \<Rightarrow> rows_arg \<Rightarrow> int
   \<Rightarrow> error + 'b out" where
  "apply_ragged func arrays rowsize rows axis =
     (case validate_rowsize arrays rowsize axis of
        Inl e \<Rightarrow> Inl e
      | Inr _ \<Rightarrow>
          (case sequence_sum (map (\<lambda>arr. unpack_nd arr rowsize rows axis) arrays) of
             Inl e \<Rightarrow> Inl e
           | Inr unpacked \<Rightarrow>
               (case unpacked of
                  [] \<Rightarrow> Inl IndexError
                | first # _ \<Rightarrow>
                    (let iter = map (\<lambda>j. map (\<lambda>a. a ! j) unpacked) [0..<length first]
                     in case sequence_sum (map func iter) of
                          Inl e \<Rightarrow> Inl e
                        | Inr res \<Rightarrow> reassemble res axis))))"

text \<open>
  The first half of \<open>apply_ragged\<close> on its own: validation, unpacking, and the results of
  the tasks in row order.
\<close>

definition row_results ::
  "('a nd list \<Rightarrow> error + 'b ret) \<Rightarrow> 'a nd list \<Rightarrow> nat list \<Rightarrow> rows_arg \<Rightarrow> int
   \<Rightarrow> error + 'b ret list" where
  "row_results func arrays rowsize rows axis =
     (case validate_rowsize arrays rowsize axis of
        Inl e \<Rightarrow> Inl e
      | Inr _ \<Rightarrow>
          (case sequence_sum (map (\<lambda>arr. unpack_nd arr rowsize rows axis) arrays) of
             Inl e \<Rightarrow> Inl e
           | Inr unpacked \<Rightarrow>
               (case unpacked of
                  [] \<Rightarrow> Inl IndexError
                | first # _ \<Rightarrow>
                    sequence_sum
                      (map func (map (\<lambda>j. map (\<lambda>a. a ! j) unpacked) [0..<length first])))))"

text \<open>
  The reassembly rule for one output position, in the specification's words: the values
  of the rows are concatenated along \<open>axis\<close> if they are vector outputs, and along the
  leading axis otherwise. The specification calls the values vector outputs when every
  row's value is longer than one element; the alternative reading looks at the first
  row's value only.
\<close>

definition longer_than_one :: "'b nd \<Rightarrow> bool" where
  "longer_than_one v = (case nd_len v of Inl e \<Rightarrow> False | Inr n \<Rightarrow> n > 1)"

definition every_longer_than_one :: "'b nd list \<Rightarrow> bool" where
  "every_longer_than_one vals = list_all longer_than_one vals"

definition first_longer_than_one :: "'b nd list \<Rightarrow> bool" where
  "first_longer_than_one vals = (case vals of [] \<Rightarrow> False | v # _ \<Rightarrow> longer_than_one v)"

definition spec_rule :: "('b nd list \<Rightarrow> bool) \<Rightarrow> 'b nd list \<Rightarrow> int \<Rightarrow> error + 'b nd" where
  "spec_rule vector_output vals axis =
     (if vector_output vals then np_concatenate vals axis else np_concatenate vals 0)"

text \<open>The value of a row at an output position, as a sequence.\<close>

fun single_value :: "'b ret \<Rightarrow> 'b nd" where
  "single_value (Single it) = wrap_item it"
| "single_value (Tuple its) = Node (map item_array its)"

fun tuple_value :: "nat \<Rightarrow> 'b ret \<Rightarrow> 'b nd" where
  "tuple_value i (Tuple its) = wrap_item (its ! i)"
| "tuple_value i (Single it) = wrap_cell (children (wrap_item it) ! i)"

text \<open>A row's result is a single value with a length.\<close>

fun sized_single :: "'b ret \<Rightarrow> bool" where
  "sized_single (Single it) = (case nd_len (wrap_item it) of Inl e \<Rightarrow> False | Inr n \<Rightarrow> True)"
| "sized_single (Tuple its) = False"

text \<open>A row's result is a tuple of \<open>m\<close> values, each with a length.\<close>

fun sized_tuple :: "nat \<Rightarrow> 'b ret \<Rightarrow> bool" where
  "sized_tuple m (Tuple its) =
     (length its = m
      \<and> list_all (\<lambda>it. case nd_len (wrap_item it) of Inl e \<Rightarrow> False | Inr n \<Rightarrow> True) its)"
| "sized_tuple m (Single it) = False"

subsection \<open>Dataset subsetter\<close>

text \<open>
  The labelled dataset: named dimensions with their cardinalities, and named variables.
  A variable lives on one dimension and holds integers (identifiers, row sizes, data);
  variables of other ranks and element types are not modelled. Both tables are
  association lists, read with \<open>map_of\<close>.
\<close>

record variable =
  vdim :: string
  vvalues :: "int list"

record dataset =
  sizes :: "(string \<times> nat) list"
  variables :: "(string \<times> variable) list"

text \<open>\<open>ds.sizes[name]\<close>.\<close>

definition ds_size :: "dataset \<Rightarrow> string \<Rightarrow> error + nat" where
  "ds_size ds name = (case map_of (sizes ds) name of None \<Rightarrow> Inl KeyError | Some n \<Rightarrow> Inr n)"

text \<open>
  \<open>ds[name]\<close>: the variable of that name, or, for a dimension without a variable, its
  default index \<open>0, 1, ..\<close>.
\<close>

definition ds_getitem :: "dataset \<Rightarrow> string \<Rightarrow> error + variable" where
  "ds_getitem ds name =
     (case map_of (variables ds) name of
        Some v \<Rightarrow> Inr v
      | None \<Rightarrow>
          (case map_of (sizes ds) name of
             Some n \<Rightarrow> Inr \<lparr>vdim = name, vvalues = map int [0..<n]\<rparr>
           | None \<Rightarrow> Inl KeyError))"

text \<open>\<open>name in ds.variables or name in ds.dims\<close>.\<close>

definition ds_known :: "dataset \<Rightarrow> string \<Rightarrow> bool" where
  "ds_known ds name = (map_of (variables ds) name \<noteq> None \<or> map_of (sizes ds) name \<noteq> None)"

text \<open>
  A key of the criteria dictionary is a name or a tuple of names; a criterion is a
  range, a list of values, a single value, or a predicate. A predicate maps the values
  of its variables (all of them, or one row of each) to a one-dimensional mask, or
  raises.
\<close>

datatype key = Name string | Names "string list"

datatype criterion =
    Range int int
  | Values "int list"
  | Equals int
  | Predicate "int list list \<Rightarrow> error + bool list"

datatype var_arg = OneVar variable | VarList "variable list"

fun callable :: "criterion \<Rightarrow> bool" where
  "callable (Predicate p) = True"
| "callable c = False"

fun is_list :: "var_arg \<Rightarrow> bool" where
  "is_list (VarList vs) = True"
| "is_list (OneVar v) = False"

text \<open>The variable of a non-list argument (the list case is refused before it is read).\<close>

fun the_var :: "var_arg \<Rightarrow> variable" where
  "the_var (OneVar v) = v"
| "the_var (VarList vs) = hd vs"

text \<open>The cells of a one-dimensional array.\<close>

fun nd_cells :: "'a nd \<Rightarrow> 'a list" where
  "nd_cells (Node cs) = concat (map (\<lambda>c. case c of Leaf v \<Rightarrow> [v] | Node _ \<Rightarrow> []) cs)"
| "nd_cells (Leaf v) = [v]"

text \<open>A predicate as the row-wise function \<open>apply_ragged\<close> runs on the row slices.\<close>

definition row_predicate ::
  "(int list list \<Rightarrow> error + bool list) \<Rightarrow> int nd list \<Rightarrow> error + bool ret" where
  "row_predicate p r =
     (case p (map nd_cells r) of Inl e \<Rightarrow> Inl e | Inr m \<Rightarrow> Inr (Single (Array (array1 m))))"

text \<open>
  \<open>xr.DataArray(data=mask, dims=[dim_name])\<close>: the data must have one dimension.
\<close>

fun mask_of_output :: "bool out \<Rightarrow> error + bool list" where
  "mask_of_output (OutArray a) =
     (if length (nd_shape a) = 1 then Inr (nd_cells a)
      else Inl (ValueError ''different number of dimensions on data and dims''))"
| "mask_of_output (OutTuple as) =
     Inl (ValueError ''different number of dimensions on data and dims'')"

text \<open>
  \<open>_mask_var(var, criterion, rowsize, dim_name)\<close>. The row sizes of a ragged dataset are
  non-negative, and \<open>nat\<close> leaves them as they are.
\<close>

definition mask_var :: "var_arg \<Rightarrow> criterion \<Rightarrow> int list \<Rightarrow> error + bool list" where
  "mask_var var criterion rowsize =
     (if \<not> callable criterion \<and> is_list var
      then Inl (TypeError ''The var parameter can be a list only if the criterion is a Callable.'')
      else
        case criterion of
          Range lo hi \<Rightarrow> Inr (map (\<lambda>x. x \<ge> lo \<and> x \<le> hi) (vvalues (the_var var)))
        | Values l \<Rightarrow> Inr (map (\<lambda>x. x \<in> set l) (vvalues (the_var var)))
        | Predicate p \<Rightarrow>
            (let vs = (case var of OneVar v \<Rightarrow> [v] | VarList l \<Rightarrow> l)
             in case vs of
                  [] \<Rightarrow> Inl IndexError
                | v0 # _ \<Rightarrow>
                    (case (if length (vvalues v0) = length rowsize then p (map vvalues vs)
                           else case apply_ragged (row_predicate p)
                                       (map (\<lambda>v. array1 (vvalues v)) vs)
                                       (map nat rowsize) AllRows 0
                                of Inl e \<Rightarrow> Inl e | Inr out \<Rightarrow> mask_of_output out)
                     of Inl e \<Rightarrow> Inl e
                      | Inr msk \<Rightarrow>
                          if \<not> (length (vvalues v0) = length msk)
                          then Inl (ValueError ''The Callable function must return a masked array that matches the length of the variable to filter.'')
                          else Inr msk))
        | Equals c \<Rightarrow> Inr (map (\<lambda>x. x = c) (vvalues (the_var var))))"

text \<open>
  \<open>np.logical_and\<close> of two masks over one dimension; masks of different lengths do not
  combine.
\<close>

definition np_logical_and :: "bool list \<Rightarrow> bool list \<Rightarrow> error + bool list" where
  "np_logical_and a b =
     (if length a = length b then Inr (map (\<lambda>(x, y). x \<and> y) (zip a b))
      else Inl (ValueError ''operands could not be broadcast together''))"

text \<open>
  One iteration of \<open>for key in criteria.keys()\<close>: the masks before, the key and its
  criterion, the masks after. A criterion whose variable lives on neither dimension
  falls through both branches.
\<close>

definition criteria_step ::
  "dataset \<Rightarrow> string \<Rightarrow> string \<Rightarrow> string \<Rightarrow> bool list \<times> bool list \<Rightarrow> key \<times> criterion
   \<Rightarrow> error + bool list \<times> bool list" where
  "criteria_step ds rowsize_var_name row_dim_name obs_dim_name masks kc =
     (let names = (case fst kc of Name k \<Rightarrow> [k] | Names ks \<Rightarrow> ks)
      in if \<not> list_all (ds_known ds) names then Inl (ValueError ''Unknown variable'')
         else
           case sequence_sum (map (ds_getitem ds) names) of
             Inl e \<Rightarrow> Inl e
           | Inr vs \<Rightarrow>
               (case vs of
                  [] \<Rightarrow> Inl IndexError
                | v0 # _ \<Rightarrow>
                    if \<not> list_all (\<lambda>c. vdim c = vdim v0) vs
                    then Inl (TypeError ''Variables passed to the Callable must share the same dimension.'')
                    else
                      let var = (case fst kc of Name k \<Rightarrow> OneVar v0 | Names ks \<Rightarrow> VarList vs)
                      in if row_dim_name = vdim v0
                         then (case ds_getitem ds rowsize_var_name of
                                 Inl e \<Rightarrow> Inl e
                               | Inr rv \<Rightarrow>
                                   (case mask_var var (snd kc) (vvalues rv) of
                                      Inl e \<Rightarrow> Inl e
                                    | Inr m \<Rightarrow>
                                        (case np_logical_and (fst masks) m of
                                           Inl e \<Rightarrow> Inl e
                                         | Inr mr \<Rightarrow> Inr (mr, snd masks))))
                         else if obs_dim_name = vdim v0
                         then (case ds_getitem ds rowsize_var_name of
                                 Inl e \<Rightarrow> Inl e
                               | Inr rv \<Rightarrow>
                                   (case mask_var var (snd kc) (vvalues rv) of
                                      Inl e \<Rightarrow> Inl e
                                    | Inr m \<Rightarrow>
                                        (case np_logical_and (snd masks) m of
                                           Inl e \<Rightarrow> Inl e
                                         | Inr mo \<Rightarrow> Inr (fst masks, mo))))
                         else Inr masks))"

fun apply_criteria ::
  "dataset \<Rightarrow> string \<Rightarrow> string \<Rightarrow> string \<Rightarrow> bool list \<times> bool list \<Rightarrow> (key \<times> criterion) list
   \<Rightarrow> error + bool list \<times> bool list" where
  "apply_criteria ds rs rd od masks [] = Inr masks"
| "apply_criteria ds rs rd od masks (kc # criteria) =
     (case criteria_step ds rs rd od masks kc of
        Inl e \<Rightarrow> Inl e
      | Inr masks' \<Rightarrow> apply_criteria ds rs rd od masks' criteria)"

text \<open>
  \<open>rowsize_to_index\<close> on the integer values of the row-size variable.
\<close>

definition traj_index :: "int list \<Rightarrow> int list" where
  "traj_index rowsize = np_cumsum (0 # rowsize)"

text \<open>\<open>m[slice(s, e)] = v\<close> on a mask.\<close>

definition set_slice :: "bool list \<Rightarrow> int \<Rightarrow> int \<Rightarrow> bool \<Rightarrow> bool list" where
  "set_slice m s e v =
     (let lo = slice_bound (length m) s; hi = slice_bound (length m) e
      in map (\<lambda>(j, b). if lo \<le> j \<and> j < hi then v else b) (zip [0..<length m] m))"

text \<open>
  The loops \<open>for i in np.where(..)[0]: mask_obs[slice(traj_idx[i], traj_idx[i + 1])] = v\<close>,
  over the listed rows.
\<close>

fun set_rows :: "int list \<Rightarrow> nat list \<Rightarrow> bool \<Rightarrow> bool list \<Rightarrow> error + bool list" where
  "set_rows traj_idx [] v m = Inr m"
| "set_rows traj_idx (i # rest) v m =
     (case py_index traj_idx (int i) of
        Inl e \<Rightarrow> Inl e
      | Inr s \<Rightarrow>
          (case py_index traj_idx (int i + 1) of
             Inl e \<Rightarrow> Inl e
           | Inr e' \<Rightarrow> set_rows traj_idx rest v (set_slice m s e' v)))"

text \<open>
  \<open>np.repeat(a, repeats)\<close>: a single count is broadcast, another number of counts than of
  elements is refused, and so is a negative count.
\<close>

definition np_repeat :: "int list \<Rightarrow> int list \<Rightarrow> error + int list" where
  "np_repeat a repeats =
     (if length repeats \<noteq> 1 \<and> length repeats \<noteq> length a
      then Inl (ValueError ''operands could not be broadcast together'')
      else if \<exists>r \<in> set repeats. r < 0
      then Inl (ValueError ''repeats may not contain negative values.'')
      else if length repeats = length a
      then Inr (concat (map (\<lambda>(x, r). replicate (nat r) x) (zip a repeats)))
      else Inr (concat (map (replicate (nat (hd repeats))) a)))"

text \<open>\<open>x[m]\<close> for a boolean mask \<open>m\<close>, which must be as long as \<open>x\<close>.\<close>

definition np_compress :: "'a list \<Rightarrow> bool list \<Rightarrow> error + 'a list" where
  "np_compress x m =
     (if length m = length x then Inr (map fst (filter snd (zip x m))) else Inl IndexError)"

text \<open>
  \<open>np.unique(ids, return_index=True, return_counts=True)\<close> followed by
  \<open>sorted_rowsize[np.argsort(unique_idx)]\<close>: the counts of the distinct identifiers, put
  in the order of their first occurrences.
\<close>

definition first_index :: "int list \<Rightarrow> int \<Rightarrow> nat" where
  "first_index xs v = length (takeWhile (\<lambda>y. y \<noteq> v) xs)"

definition np_argsort :: "nat list \<Rightarrow> nat list" where
  "np_argsort xs = map snd (sort_key fst (zip xs [0..<length xs]))"

definition recount_rowsize :: "int list \<Rightarrow> int list" where
  "recount_rowsize ids =
     (let u = sort (remdups ids);
          unique_idx = map (first_index ids) u;
          sorted_rowsize = map (\<lambda>v. int (count_list ids v)) u
      in map (\<lambda>k. sorted_rowsize ! k) (np_argsort unique_idx))"

text \<open>
  \<open>ds.isel({dname: m})\<close> for a boolean mask: the dimension shrinks to the selected
  positions, and so does every variable on it.
\<close>

definition isel :: "dataset \<Rightarrow> string \<Rightarrow> bool list \<Rightarrow> error + dataset" where
  "isel ds dname m =
     (if \<not> (map_of (sizes ds) dname = Some (length m)) then Inl IndexError
      else Inr \<lparr>sizes = map (\<lambda>(d, n). if d = dname then (d, length (filter id m)) else (d, n))
                          (sizes ds),
                variables = map (\<lambda>(k, v). if vdim v = dname
                                    then (k, v\<lparr>vvalues := map fst (filter snd (zip (vvalues v) m))\<rparr>)
                                    else (k, v))
                              (variables ds)\<rparr>)"

text \<open>
  \<open>ds[name].values = new\<close>: the replacement must have the variable's shape; the index of
  a dimension cannot be assigned to.
\<close>

definition set_values :: "dataset \<Rightarrow> string \<Rightarrow> int list \<Rightarrow> error + dataset" where
  "set_values ds name new =
     (case map_of (variables ds) name of
        None \<Rightarrow> (if map_of (sizes ds) name = None then Inl KeyError
                 else Inl (ValueError ''Cannot assign to the .values attribute of dimension coordinate''))
      | Some v \<Rightarrow>
          if length new \<noteq> length (vvalues v)
          then Inl (ValueError ''replacement data must match the shape of the variable'')
          else Inr (ds\<lparr>variables := map (\<lambda>(k, w). if k = name then (k, w\<lparr>vvalues := new\<rparr>)
                                                    else (k, w))
                                      (variables ds)\<rparr>))"

text \<open>
  The propagation between the two masks after the criteria: rows that were filtered
  lose their observations, then rows without a surviving observation are filtered. The
  result carries the masks, the identifiers of the surviving observations, the
  identifier of every observation, and the offsets.
\<close>

definition propagate ::
  "dataset \<Rightarrow> string \<Rightarrow> string \<Rightarrow> bool list \<times> bool list
   \<Rightarrow> error + bool list \<times> bool list \<times> int list \<times> int list \<times> int list" where
  "propagate ds id_var_name rowsize_var_name masks =
     (case ds_getitem ds rowsize_var_name of
        Inl e \<Rightarrow> Inl e
      | Inr rv \<Rightarrow>
          (let traj_idx = traj_index (vvalues rv)
           in case set_rows traj_idx (np_where (map Not (fst masks))) False (snd masks) of
                Inl e \<Rightarrow> Inl e
              | Inr mask_obs \<Rightarrow>
                  (case ds_getitem ds id_var_name of
                     Inl e \<Rightarrow> Inl e
                   | Inr iv \<Rightarrow>
                       (case np_repeat (vvalues iv) (vvalues rv) of
                          Inl e \<Rightarrow> Inl e
                        | Inr rep \<Rightarrow>
                            (case np_compress rep mask_obs of
                               Inl e \<Rightarrow> Inl e
                             | Inr ids_with_mask_obs \<Rightarrow>
                                 (case np_logical_and (fst masks)
                                         (map (\<lambda>i. i \<in> set ids_with_mask_obs) (vvalues iv))
                                  of Inl e \<Rightarrow> Inl e
                                   | Inr mask_row \<Rightarrow>
                                       Inr (mask_row, mask_obs, ids_with_mask_obs, rep,
                                            traj_idx)))))))"

text \<open>
  \<open>if full_rows\<close>: every observation of a surviving row is put back, and the identifiers
  of the surviving observations are read again.
\<close>

definition widen ::
  "bool \<Rightarrow> bool list \<times> bool list \<times> int list \<times> int list \<times> int list
   \<Rightarrow> error + bool list \<times> int list" where
  "widen full_rows st =
     (case st of (mask_row, mask_obs, ids_with_mask_obs, rep, traj_idx) \<Rightarrow>
        if full_rows
        then (case set_rows traj_idx (np_where mask_row) True mask_obs of
                Inl e \<Rightarrow> Inl e
              | Inr mo \<Rightarrow>
                  (case np_compress rep mo of
                     Inl e \<Rightarrow> Inl e
                   | Inr ids \<Rightarrow> Inr (mo, ids)))
        else Inr (mask_obs, ids_with_mask_obs))"

text \<open>
  The end of \<open>subset\<close>: a warning and the empty dataset when no row is left; otherwise
  the selection along both dimensions (one entry of the indexer dictionary when both
  names are the same), with the row sizes counted again. The result carries the
  warnings raised.
\<close>

definition materialize ::
  "dataset \<Rightarrow> string \<Rightarrow> string \<Rightarrow> string \<Rightarrow> bool list \<Rightarrow> bool list \<Rightarrow> int list
   \<Rightarrow> error + string list \<times> dataset" where
  "materialize ds rowsize_var_name row_dim_name obs_dim_name mask_row mask_obs ids_with_mask_obs =
     (if \<not> list_ex id mask_row
      then Inr ([''No data matches the criteria; returning an empty dataset.''],
                \<lparr>sizes = [], variables = []\<rparr>)
      else
        case (if row_dim_name = obs_dim_name then isel ds obs_dim_name mask_obs
              else case isel ds row_dim_name mask_row of
                     Inl e \<Rightarrow> Inl e
                   | Inr d \<Rightarrow> isel d obs_dim_name mask_obs)
        of Inl e \<Rightarrow> Inl e
         | Inr ds_sub \<Rightarrow>
             (case set_values ds_sub rowsize_var_name (recount_rowsize ids_with_mask_obs) of
                Inl e \<Rightarrow> Inl e
              | Inr r \<Rightarrow> Inr ([], r)))"

text \<open>\<open>subset(ds, criteria, id_var_name, rowsize_var_name, row_dim_name, obs_dim_name, full_rows)\<close>.\<close>

definition subset ::
  "dataset \<Rightarrow> (key \<times> criterion) list \<Rightarrow> string \<Rightarrow> string \<Rightarrow> string \<Rightarrow> string \<Rightarrow> bool
   \<Rightarrow> error + string list \<times> dataset" where
  "subset ds criteria id_var_name rowsize_var_name row_dim_name obs_dim_name full_rows =
     (case ds_size ds row_dim_name of
        Inl e \<Rightarrow> Inl e
      | Inr nr \<Rightarrow>
          (case ds_size ds obs_dim_name of
             Inl e \<Rightarrow> Inl e
           | Inr no \<Rightarrow>
               (case apply_criteria ds rowsize_var_name row_dim_name obs_dim_name
                       (replicate nr True, replicate no True) criteria of
                  Inl e \<Rightarrow> Inl e
                | Inr masks \<Rightarrow>
                    (case propagate ds id_var_name rowsize_var_name masks of
                       Inl e \<Rightarrow> Inl e
                     | Inr st \<Rightarrow>
                         (case widen full_rows st of
                            Inl e \<Rightarrow> Inl e
                          | Inr (mask_obs, ids_with_mask_obs) \<Rightarrow>
                              materialize ds rowsize_var_name row_dim_name obs_dim_name
                                (fst st) mask_obs ids_with_mask_obs)))))"

text \<open>
  A ragged dataset under the names given to \<open>subset\<close>: two dimensions, and an
  identifier variable and a row-size variable, different from one another, that both
  live on the row dimension and so have one entry per row.
\<close>

definition ragged_dataset :: "dataset \<Rightarrow> string \<Rightarrow> string \<Rightarrow> string \<Rightarrow> string \<Rightarrow> bool" where
  "ragged_dataset ds id_var_name rowsize_var_name row_dim_name obs_dim_name =
     (row_dim_name \<noteq> obs_dim_name \<and> id_var_name \<noteq> rowsize_var_name
      \<and> (case map_of (variables ds) id_var_name of
            None \<Rightarrow> False
          | Some iv \<Rightarrow>
              (case map_of (variables ds) rowsize_var_name of
                 None \<Rightarrow> False
               | Some rv \<Rightarrow>
                   vdim iv = row_dim_name \<and> vdim rv = row_dim_name
                   \<and> length (vvalues rv) = length (vvalues iv))))"

section \<open>Properties\<close>

subsection \<open>Segmenter\<close>





lemma sum_list_np_diff: "sum_list (np_diff (a # bs)) = last (a # bs) - (a :: int)"
  by (induction bs arbitrary: a) (simp_all add: np_diff_def)








subsection \<open>Chunker\<close>

lemma py_slice_window:
  assumes "0 \<le> s" "0 \<le> len" "s + len \<le> int (length x)"
  shows "py_slice x s (s + len) = window x len s"
    and "length (window x len s) = nat len"
  using assms
  by (auto simp: py_slice_def slice_bound_def window_def Let_def min_def nat_diff_distrib nat_add_distrib)

lemma assign_row_window:
  assumes "0 \<le> s" "0 \<le> len" "s + len \<le> int (length x)"
  shows "assign_row (nat len) (py_slice x s (s + len)) = Inr (window x len s)"
  using py_slice_window [OF assms] by (simp add: assign_row_def)

lemma chunk_loop_windows:
  assumes "0 \<le> len" "overlap < len" "0 \<le> s"
    and "0 < n \<Longrightarrow> s + int (n - 1) * (len - overlap) + len \<le> int (length x)"
  shows "chunk_loop x len overlap s n
         = Inr (map (\<lambda>j. window x len (s + int j * (len - overlap))) [0..<n])"
  using assms
proof (induction n arbitrary: s)
  case 0
  then show ?case by simp
next
  case (Suc n)
  have d: "0 < len - overlap" using Suc.prems by simp
  have last: "s + int n * (len - overlap) + len \<le> int (length x)"
    using Suc.prems(4) by simp
  have "0 \<le> int n * (len - overlap)" using d by simp
  with last have first: "s + len \<le> int (length x)" by linarith
  have row: "assign_row (nat len) (py_slice x s (s + len)) = Inr (window x len s)"
    using assign_row_window [OF \<open>0 \<le> s\<close> \<open>0 \<le> len\<close> first] .
  have s': "0 \<le> s + len - overlap" using d \<open>0 \<le> s\<close> by linarith
  have rest: "chunk_loop x len overlap (s + len - overlap) n
        = Inr (map (\<lambda>j. window x len (s + len - overlap + int j * (len - overlap))) [0..<n])"
  proof (rule Suc.IH [OF \<open>0 \<le> len\<close> \<open>overlap < len\<close> s'])
    assume "0 < n"
    then have "int (n - 1) = int n - 1" by simp
    then show "s + len - overlap + int (n - 1) * (len - overlap) + len \<le> int (length x)"
      using last by (simp add: algebra_simps)
  qed
  have shift: "map (\<lambda>j. window x len (s + len - overlap + int j * (len - overlap))) [0..<n]
        = map (\<lambda>j. window x len (s + int j * (len - overlap))) (map Suc [0..<n])"
    by (simp add: algebra_simps)
  have "[0..<Suc n] = 0 # map Suc [0..<n]"
    by (simp add: upt_conv_Cons map_Suc_upt del: upt_Suc)
  then show ?case
    using row rest shift by (simp add: Let_def del: upt_Suc)
qed


lemma chunk_arith:
  fixes N len overlap :: int
  assumes "0 \<le> len" "overlap < len" "len \<le> N"
  defines "q \<equiv> (N - len) div (len - overlap)"
  shows "0 \<le> q"
    and "N - (q + 1) * len + (q + 1 - 1) * overlap = (N - len) mod (len - overlap)"
    and "0 \<le> (N - len) mod (len - overlap)"
    and "(N - len) mod (len - overlap) + q * (len - overlap) + len = N"
proof -
  have d: "0 < len - overlap" using assms by simp
  show "0 \<le> q" unfolding q_def using d assms by (simp add: pos_imp_zdiv_nonneg_iff)
  have dm: "(len - overlap) * q + (N - len) mod (len - overlap) = N - len"
    unfolding q_def by simp
  show "N - (q + 1) * len + (q + 1 - 1) * overlap = (N - len) mod (len - overlap)"
    using dm by (simp add: algebra_simps)
  show "0 \<le> (N - len) mod (len - overlap)" using d by simp
  show "(N - len) mod (len - overlap) + q * (len - overlap) + len = N"
    using dm by (simp add: algebra_simps)
qed

lemma spec_first_start_bounds:
  "0 \<le> r \<Longrightarrow> 0 \<le> spec_first_start align r \<and> spec_first_start align r \<le> r"
proof -
  assume "0 \<le> r"
  then have "0 \<le> r div 2" "r div 2 \<le> r" by presburger+
  with \<open>0 \<le> r\<close> show ?thesis by (simp add: spec_first_start_def)
qed

lemma chunk_eq_spec:
  assumes "0 \<le> len" "overlap < len" "align \<in> {''start'', ''middle'', ''end''}"
  shows "chunk x len overlap align
         = Inr \<lparr>nrows = nat (spec_num_chunks (length x) len overlap), ncols = nat len,
                cells = spec_chunks x len overlap align\<rparr>"
proof (cases "len \<le> int (length x)")
  case False
  then show ?thesis
    using assms by (auto simp: chunk_def spec_num_chunks_def spec_chunks_def Let_def)
next
  case True
  define N where "N = int (length x)"
  define q where "q = (N - len) div (len - overlap)"
  define r where "r = (N - len) mod (len - overlap)"
  note ar = chunk_arith [OF assms(1,2) True [folded N_def], folded q_def r_def]
  have k: "spec_num_chunks (length x) len overlap = q + 1"
    using True by (simp add: spec_num_chunks_def q_def N_def)
  have rem: "spec_remainder (length x) len overlap = r"
    using ar(2) by (simp add: spec_remainder_def k N_def)
  define s where "s = spec_first_start align r"
  have sb: "0 \<le> s" "s \<le> r"
    using spec_first_start_bounds [OF ar(3), of align] by (simp_all add: s_def)
  have d: "0 < len - overlap" using assms by simp
  have loop: "chunk_loop x len overlap s (nat (q + 1))
        = Inr (map (\<lambda>j. window x len (s + int j * (len - overlap))) [0..<nat (q + 1)])"
  proof (rule chunk_loop_windows [OF assms(1,2) sb(1)])
    have "int (nat (q + 1) - 1) = q" using ar(1) by simp
    then show "s + int (nat (q + 1) - 1) * (len - overlap) + len \<le> int (length x)"
      using ar(4) sb(2) by (simp add: N_def)
  qed
  have start: "(if align = ''start'' then Inr 0
                else if align = ''middle'' then Inr (r div 2)
                else if align = ''end'' then Inr r
                else Inl (ValueError ''align must be one of start, middle, or end.''))
               = (Inr s :: error + int)"
    using assms(3) by (auto simp: s_def spec_first_start_def)
  have nz: "len - overlap \<noteq> 0" using d by simp
  have cond: "\<not> (q + 1 < 0 \<or> len < 0)" using ar(1) assms(1) by simp
  have r2: "int (length x) - (q + 1) * len + (q + 1 - 1) * overlap = r"
    using ar(2) by (simp add: N_def)
  have "chunk x len overlap align
        = Inr \<lparr>nrows = nat (q + 1), ncols = nat len,
               cells = map (\<lambda>j. window x len (s + int j * (len - overlap))) [0..<nat (q + 1)]\<rparr>"
    unfolding chunk_def using True nz
    by (simp only: Let_def if_True if_False q_def [symmetric] N_def [symmetric] r2 [unfolded N_def [symmetric]] cond start loop sum.case simp_thms)
  then show ?thesis
    by (simp add: spec_chunks_def k rem s_def)
qed

lemma spec_chunks_lengths:
  assumes "0 \<le> len" "overlap < len" "w \<in> set (spec_chunks x len overlap align)"
  shows "length w = nat len"
proof (cases "len \<le> int (length x)")
  case False
  then show ?thesis
    using assms(3) by (simp add: spec_chunks_def spec_num_chunks_def)
next
  case True
  define N where "N = int (length x)"
  define q where "q = (N - len) div (len - overlap)"
  define r where "r = (N - len) mod (len - overlap)"
  note ar = chunk_arith [OF assms(1,2) True [folded N_def], folded q_def r_def]
  have k: "spec_num_chunks (length x) len overlap = q + 1"
    using True by (simp add: spec_num_chunks_def q_def N_def)
  have rem: "spec_remainder (length x) len overlap = r"
    using ar(2) by (simp add: spec_remainder_def k N_def)
  define s where "s = spec_first_start align r"
  have sb: "0 \<le> s" "s \<le> r"
    using spec_first_start_bounds [OF ar(3), of align] by (simp_all add: s_def)
  have d: "0 < len - overlap" using assms by simp
  obtain j where j: "j < nat (q + 1)" and w: "w = window x len (s + int j * (len - overlap))"
    using assms(3) by (auto simp: spec_chunks_def k rem s_def)
  have "int j \<le> q" using j ar(1) by linarith
  then have "int j * (len - overlap) \<le> q * (len - overlap)"
    using d by (simp add: mult_right_mono)
  then have hi: "s + int j * (len - overlap) + len \<le> int (length x)"
    using ar(4) sb(2) by (simp add: N_def)
  have lo: "0 \<le> s + int j * (len - overlap)"
    using sb(1) d by simp
  show ?thesis
    unfolding w using py_slice_window(2) [OF lo assms(1) hi] .
qed

lemma chunk_example_start:
  "chunk [1, 2, 3, 4, 5 :: int] 2 0 ''start''
   = Inr \<lparr>nrows = 2, ncols = 2, cells = [[1, 2], [3, 4]]\<rparr>"
  by code_simp

lemma chunk_example_end:
  "chunk [1, 2, 3, 4, 5 :: int] 2 0 ''end''
   = Inr \<lparr>nrows = 2, ncols = 2, cells = [[2, 3], [4, 5]]\<rparr>"
  by code_simp

lemma chunk_example_middle:
  "chunk [1, 2, 3, 4, 5, 6, 7, 8 :: int] 3 0 ''middle''
   = Inr \<lparr>nrows = 2, ncols = 3, cells = [[2, 3, 4], [5, 6, 7]]\<rparr>"
  by code_simp

lemma chunk_example_overlap:
  "chunk [1, 2, 3, 4, 5 :: int] 2 1 ''start''
   = Inr \<lparr>nrows = 4, ncols = 2, cells = [[1, 2], [2, 3], [3, 4], [4, 5]]\<rparr>"
  by code_simp

text \<open>
  C4 (as amended). For \<open>0 \<le> length\<close>, \<open>overlap < length\<close> and an alignment among
  \<open>start\<close>, \<open>middle\<close>, \<open>end\<close>, \<open>chunk\<close> returns an array of shape
  \<open>(num_chunks, length)\<close> with \<open>num_chunks = (len(x) - length) div (length - overlap) + 1\<close>
  when \<open>len(x) \<ge> length\<close> and \<open>0\<close> otherwise; row \<open>j\<close> is the window of \<open>length\<close>
  elements at offset \<open>first + j * (length - overlap)\<close>, where \<open>first\<close> is \<open>0\<close>, the
  remainder, or half the remainder rounded down; every window lies inside \<open>x\<close>. The
  four documented examples evaluate as stated.
\<close>

theorem chunk_shape_and_windows:
  assumes "0 \<le> len" and "overlap < len"
    and "align \<in> {''start'', ''middle'', ''end''}"
  shows "chunk x len overlap align
           = Inr \<lparr>nrows = nat (spec_num_chunks (length x) len overlap), ncols = nat len,
                  cells = spec_chunks x len overlap align\<rparr>
         \<and> length (spec_chunks x len overlap align)
             = nat (spec_num_chunks (length x) len overlap)
         \<and> (\<forall>w \<in> set (spec_chunks x len overlap align). length w = nat len)
         \<and> chunk [1, 2, 3, 4, 5 :: int] 2 0 ''start''
             = Inr \<lparr>nrows = 2, ncols = 2, cells = [[1, 2], [3, 4]]\<rparr>
         \<and> chunk [1, 2, 3, 4, 5 :: int] 2 0 ''end''
             = Inr \<lparr>nrows = 2, ncols = 2, cells = [[2, 3], [4, 5]]\<rparr>
         \<and> chunk [1, 2, 3, 4, 5, 6, 7, 8 :: int] 3 0 ''middle''
             = Inr \<lparr>nrows = 2, ncols = 3, cells = [[2, 3, 4], [5, 6, 7]]\<rparr>
         \<and> chunk [1, 2, 3, 4, 5 :: int] 2 1 ''start''
             = Inr \<lparr>nrows = 4, ncols = 2, cells = [[1, 2], [2, 3], [3, 4], [4, 5]]\<rparr>"
proof -
  have "length (spec_chunks x len overlap align)
        = nat (spec_num_chunks (length x) len overlap)"
    by (simp add: spec_chunks_def)
  moreover have "\<forall>w \<in> set (spec_chunks x len overlap align). length w = nat len"
    using spec_chunks_lengths [OF assms(1,2)] by blast
  ultimately show ?thesis
    using chunk_eq_spec [OF assms] chunk_example_start chunk_example_end
      chunk_example_middle chunk_example_overlap
    by blast
qed

theorem chunk_shape_and_windows_witness:
  "chunk [10, 20, 30, 40, 50, 60, 70, 80 :: int] 3 1 ''end''
     = Inr \<lparr>nrows = 3, ncols = 3, cells = [[20, 30, 40], [40, 50, 60], [60, 70, 80]]\<rparr>
   \<and> spec_num_chunks 8 3 1 = 3 \<and> spec_remainder 8 3 1 = 1"
proof -
  let ?x = "[10, 20, 30, 40, 50, 60, 70, 80 :: int]"
  have n: "spec_num_chunks 8 3 1 = 3" by code_simp
  have n': "nat (spec_num_chunks (length ?x) 3 1) = 3" by code_simp
  have r: "spec_remainder 8 3 1 = 1" by code_simp
  have c: "spec_chunks ?x 3 1 ''end'' = [[20, 30, 40], [40, 50, 60], [60, 70, 80]]"
    by code_simp
  have a: "''end'' \<in> {''start'', ''middle'', ''end''}" by simp
  have h1: "(0 :: int) \<le> 3" and h2: "(1 :: int) < 3" by simp_all
  have "chunk ?x 3 1 ''end''
        = Inr \<lparr>nrows = nat (spec_num_chunks (length ?x) 3 1), ncols = nat 3,
               cells = spec_chunks ?x 3 1 ''end''\<rparr>"
    using chunk_shape_and_windows [OF h1 h2 a, of ?x] by blast
  then show ?thesis
    unfolding n' c using n r by simp
qed

text \<open>
  The specification's condition admits a negative \<open>length\<close> (\<open>len(x) \<ge> length > overlap\<close> holds
  for \<open>x = []\<close>, \<open>length = -1\<close>, \<open>overlap = -2\<close>); there \<open>np.empty\<close> refuses the
  negative dimension and no array is returned.
\<close>

theorem chunk_negative_length_counterexample:
  "int (length ([] :: int list)) \<ge> - 1 \<and> (- 1 :: int) > - 2
   \<and> chunk ([] :: int list) (- 1) (- 2) ''start''
       = Inl (ValueError ''negative dimensions are not allowed'')"
  by (simp add: chunk_def)






subsection \<open>Observation index to row index\<close>


lemma length_cumsum_from: "length (cumsum_from acc rs) = length rs"
  by (induction rs arbitrary: acc) simp_all















subsection \<open>Row unpacker and repacker\<close>








lemma sequence_sum_Inr: "sequence_sum (map Inr ys) = Inr ys"
  by (induction ys) simp_all
















subsection \<open>Row-size validation of the row-coupled operations\<close>

lemma sequence_sum_Inl:
  "sequence_sum rs = Inl e \<Longrightarrow> Inl e \<in> set rs"
proof (induction rs)
  case Nil
  then show ?case by simp
next
  case (Cons r rs)
  then show ?case
    by (cases r) (auto split: sum.splits)
qed

lemma sequence_sum_map_Inl:
  "sequence_sum (map f xs) = Inl e \<Longrightarrow> \<exists>x \<in> set xs. f x = Inl e"
  using sequence_sum_Inl [of "map f xs" e] by auto

lemma py_index_error: "py_index xs i = Inl e \<Longrightarrow> e = IndexError"
  by (auto simp: py_index_def split: if_splits)

lemma unpack_nd_error: "unpack_nd a rs rows axis = Inl e \<Longrightarrow> e = IndexError"
  by (auto simp: unpack_nd_def Let_def split: if_splits
      dest!: sequence_sum_map_Inl py_index_error)

lemma np_concatenate_error:
  "np_concatenate arrs axis = Inl e \<Longrightarrow>
   e \<noteq> ValueError ''The sum of rowsize must equal the length of arr.''"
  by (auto simp: np_concatenate_def Let_def split: if_splits)

lemma nd_len_error:
  "nd_len a = Inl e \<Longrightarrow> e \<noteq> ValueError ''The sum of rowsize must equal the length of arr.''"
  by (cases a) auto

lemma output_at_error: "output_at i r = Inl e \<Longrightarrow> e = IndexError"
  by (induction i r rule: output_at.induct)
     (auto split: sum.splits dest: py_index_error)

lemma as_array_error:
  "as_array r = Inl e \<Longrightarrow> e \<noteq> ValueError ''The sum of rowsize must equal the length of arr.''"
  by (cases r) (auto split: if_splits)

lemma concat_outputs_error:
  "concat_outputs result axis = Inl e \<Longrightarrow>
   e \<noteq> ValueError ''The sum of rowsize must equal the length of arr.''"
  by (auto simp: concat_outputs_def split: sum.splits if_splits
      dest: nd_len_error np_concatenate_error)

lemma py_index_not_ValueError: "py_index xs i \<noteq> Inl (ValueError m)"
  using py_index_error [of xs i "ValueError m"] by auto

lemma output_at_not_ValueError: "output_at i r \<noteq> Inl (ValueError m)"
  using output_at_error [of i r "ValueError m"] by auto

lemma unpack_nd_not_ValueError: "unpack_nd a rs rows axis \<noteq> Inl (ValueError m)"
  using unpack_nd_error [of a rs rows axis "ValueError m"] by auto

lemma concat_outputs_not_mismatch:
  "concat_outputs result axis
   \<noteq> Inl (ValueError ''The sum of rowsize must equal the length of arr.'')"
  using concat_outputs_error [of result axis] by auto

lemma np_concatenate_not_mismatch:
  "np_concatenate arrs axis
   \<noteq> Inl (ValueError ''The sum of rowsize must equal the length of arr.'')"
  using np_concatenate_error [of arrs axis] by auto

lemma nd_len_not_mismatch:
  "nd_len a \<noteq> Inl (ValueError ''The sum of rowsize must equal the length of arr.'')"
  using nd_len_error [of a] by auto

lemma as_array_not_mismatch:
  "as_array r \<noteq> Inl (ValueError ''The sum of rowsize must equal the length of arr.'')"
  using as_array_error [of r] by auto

lemma sequence_sum_map_not:
  assumes "\<And>x. f x \<noteq> Inl e"
  shows "sequence_sum (map f xs) \<noteq> Inl e"
  using sequence_sum_map_Inl [of f xs e] assms by auto

lemma output_column_not_mismatch:
  "(case sequence_sum (map (output_at (int i)) res) of
      Inl e \<Rightarrow> Inl e
    | Inr result \<Rightarrow> concat_outputs result axis)
   \<noteq> Inl (ValueError ''The sum of rowsize must equal the length of arr.'')"
proof (cases "sequence_sum (map (output_at (int i)) res)")
  case (Inl e)
  then show ?thesis
    using sequence_sum_map_not [of "output_at (int i)" _ res, OF output_at_not_ValueError]
    by auto
next
  case (Inr result)
  then show ?thesis by (simp add: concat_outputs_not_mismatch)
qed

lemma reassemble_not_mismatch:
  "reassemble res axis
   \<noteq> Inl (ValueError ''The sum of rowsize must equal the length of arr.'')"
proof (cases res)
  case Nil
  then show ?thesis by (simp add: reassemble_def)
next
  case (Cons r rest)
  show ?thesis
  proof (cases r)
    case (Single it)
    have a: "sequence_sum (map as_array res)
        \<noteq> Inl (ValueError ''The sum of rowsize must equal the length of arr.'')"
      by (rule sequence_sum_map_not) (rule as_array_not_mismatch)
    show ?thesis
      using a Cons Single
      by (auto simp: reassemble_def nd_len_not_mismatch np_concatenate_not_mismatch
          split: sum.splits)
  next
    case (Tuple its)
    have a: "sequence_sum
               (map (\<lambda>i. case sequence_sum (map (output_at (int i)) res) of
                               Inl e \<Rightarrow> Inl e
                             | Inr result \<Rightarrow> concat_outputs result axis)
                     [0..<length its])
        \<noteq> Inl (ValueError ''The sum of rowsize must equal the length of arr.'')"
      by (rule sequence_sum_map_not) (rule output_column_not_mismatch)
    show ?thesis
      using a Cons Tuple
      by (auto simp: reassemble_def split: sum.splits)
  qed
qed

lemma validate_rowsize_ok:
  assumes "\<forall>arr \<in> set arrays. py_index (nd_shape arr) axis = Inr (sum_list rs)"
  shows "validate_rowsize arrays rs axis = Inr ()"
  using assms by (induction arrays) simp_all

lemma validate_rowsize_mismatch:
  assumes "\<forall>arr \<in> set arrays. \<exists>n. py_index (nd_shape arr) axis = Inr n"
    and "\<exists>arr \<in> set arrays. py_index (nd_shape arr) axis \<noteq> Inr (sum_list rs)"
  shows "validate_rowsize arrays rs axis
         = Inl (ValueError ''The sum of rowsize must equal the length of arr.'')"
  using assms
proof (induction arrays)
  case Nil
  then show ?case by simp
next
  case (Cons arr arrays)
  then obtain n where n: "py_index (nd_shape arr) axis = Inr n" by auto
  show ?case
  proof (cases "sum_list rs = n")
    case True
    then have "\<exists>a \<in> set arrays. py_index (nd_shape a) axis \<noteq> Inr (sum_list rs)"
      using Cons.prems(2) n by auto
    then show ?thesis
      using Cons.IH Cons.prems(1) n True by simp
  next
    case False
    then show ?thesis using n by simp
  qed
qed

lemma apply_ragged_mismatch:
  assumes "\<forall>arr \<in> set arrays. \<exists>n. py_index (nd_shape arr) axis = Inr n"
    and "\<exists>arr \<in> set arrays. py_index (nd_shape arr) axis \<noteq> Inr (sum_list rs)"
  shows "apply_ragged func arrays rs rows axis
         = Inl (ValueError ''The sum of rowsize must equal the length of arr.'')"
  by (simp add: apply_ragged_def validate_rowsize_mismatch [OF assms])

lemma apply_ragged_no_mismatch:
  assumes "\<forall>arr \<in> set arrays. py_index (nd_shape arr) axis = Inr (sum_list rs)"
    and "\<forall>x. func x \<noteq> Inl (ValueError ''The sum of rowsize must equal the length of arr.'')"
  shows "apply_ragged func arrays rs rows axis
         \<noteq> Inl (ValueError ''The sum of rowsize must equal the length of arr.'')"
proof -
  have u: "sequence_sum (map (\<lambda>arr. unpack_nd arr rs rows axis) arrays)
           \<noteq> Inl (ValueError ''The sum of rowsize must equal the length of arr.'')"
    by (rule sequence_sum_map_not) (rule unpack_nd_not_ValueError)
  have f: "sequence_sum (map (func \<circ> h) js)
           \<noteq> Inl (ValueError ''The sum of rowsize must equal the length of arr.'')"
    for h :: "nat \<Rightarrow> 'a nd list" and js
    by (rule sequence_sum_map_not) (use assms(2) in simp)
  show ?thesis
    unfolding apply_ragged_def validate_rowsize_ok [OF assms(1)]
    using u f
    by (auto simp: Let_def reassemble_not_mismatch split: sum.splits list.splits)
qed

lemma segment_mismatch:
  "sum_list rs \<noteq> length x \<Longrightarrow>
   segment x tol (Some rs) = Inl (ValueError ''The sum of rowsize must equal the length of x.'')"
  by (simp add: segment_def)

lemma segment_no_mismatch:
  "sum_list rs = length x \<Longrightarrow>
   segment x tol (Some rs) \<noteq> Inl (ValueError ''The sum of rowsize must equal the length of x.'')"
  by (simp add: segment_def np_concatenate1_def)

text \<open>
  C8. \<open>segment\<close> with a \<open>rowsize\<close>, and \<open>apply_ragged\<close> over its input arrays, fail with
  the value-mismatch condition, and return nothing, when \<open>sum(rowsize)\<close> differs from
  the length along the ragged axis (for \<open>apply_ragged\<close>: of some input array, every
  array having that axis); and when the sums agree they do not raise that condition
  (for \<open>apply_ragged\<close>: unless the row-wise function itself raises it).
\<close>

theorem rowsize_mismatch_fails_fast:
  "(sum_list rs \<noteq> length x \<longrightarrow>
      segment x tol (Some rs)
        = Inl (ValueError ''The sum of rowsize must equal the length of x.''))
   \<and> (sum_list rs = length x \<longrightarrow>
      segment x tol (Some rs)
        \<noteq> Inl (ValueError ''The sum of rowsize must equal the length of x.''))
   \<and> ((\<forall>arr \<in> set arrays. \<exists>n. py_index (nd_shape arr) axis = Inr n)
        \<and> (\<exists>arr \<in> set arrays. py_index (nd_shape arr) axis \<noteq> Inr (sum_list rs)) \<longrightarrow>
      apply_ragged func arrays rs rows axis
        = Inl (ValueError ''The sum of rowsize must equal the length of arr.''))
   \<and> ((\<forall>arr \<in> set arrays. py_index (nd_shape arr) axis = Inr (sum_list rs))
        \<and> (\<forall>r. func r \<noteq> Inl (ValueError ''The sum of rowsize must equal the length of arr.''))
        \<longrightarrow>
      apply_ragged func arrays rs rows axis
        \<noteq> Inl (ValueError ''The sum of rowsize must equal the length of arr.''))"
  using segment_mismatch [of rs x tol] segment_no_mismatch [of rs x tol]
    apply_ragged_mismatch [of arrays axis rs func rows]
    apply_ragged_no_mismatch [of arrays axis rs func rows]
  by blast

theorem rowsize_mismatch_fails_fast_witness:
  "segment [1, 2, 3 :: int] 1 (Some [1, 1])
     = Inl (ValueError ''The sum of rowsize must equal the length of x.'')
   \<and> segment [1, 2, 3 :: int] 1 (Some [2, 1]) = Inr [2, 1]
   \<and> apply_ragged (\<lambda>r. Inr (Single (Array (hd r)))) [array1 [1, 2, 3 :: int]] [1, 1] AllRows 0
       = (Inl (ValueError ''The sum of rowsize must equal the length of arr.'')
          :: error + int out)
   \<and> apply_ragged (\<lambda>r. Inr (Single (Array (hd r)))) [array1 [1, 2, 3 :: int]] [2, 1] AllRows 0
       = (Inr (OutArray (array1 [1, 2, 3])) :: error + int out)"
proof -
  let ?f = "\<lambda>r :: int nd list. (Inr (Single (Array (hd r))) :: error + int ret)"
  note th = rowsize_mismatch_fails_fast
      [where rs = "[1, 1]" and x = "[1, 2, 3 :: int]" and tol = 1
         and arrays = "[array1 [1, 2, 3 :: int]]" and axis = 0 and func = ?f
         and rows = AllRows]
  have s: "py_index (nd_shape (array1 [1, 2, 3 :: int])) 0 = Inr 3"
    by (simp add: array1_def py_index_def)
  have 1: "segment [1, 2, 3 :: int] 1 (Some [1, 1])
     = Inl (ValueError ''The sum of rowsize must equal the length of x.'')"
    using th by simp
  have 3: "apply_ragged ?f [array1 [1, 2, 3 :: int]] [1, 1] AllRows 0
       = Inl (ValueError ''The sum of rowsize must equal the length of arr.'')"
    using th s by simp
  have 2: "segment [1, 2, 3 :: int] 1 (Some [2, 1]) = Inr [2, 1]"
    by code_simp
  have 4: "apply_ragged ?f [array1 [1, 2, 3 :: int]] [2, 1] AllRows 0
       = Inr (OutArray (array1 [1, 2, 3]))"
    by code_simp
  show ?thesis using 1 2 3 4 by blast
qed

subsection \<open>Reassembly in the ragged apply engine\<close>

lemma apply_ragged_split:
  "apply_ragged func arrays rs rows axis =
     (case row_results func arrays rs rows axis of
        Inl e \<Rightarrow> Inl e
      | Inr res \<Rightarrow> reassemble res axis)"
  by (simp add: apply_ragged_def row_results_def Let_def split: sum.splits list.splits)

lemma sized_single_as_array:
  "list_all sized_single res \<Longrightarrow> map as_array res = map Inr (map single_value res)"
proof (induction res)
  case Nil
  then show ?case by simp
next
  case (Cons r res)
  then show ?case by (cases r) simp_all
qed

lemma reassemble_single:
  assumes "res \<noteq> []" "list_all sized_single res"
  shows "reassemble res axis
         = map_sum id OutArray (spec_rule first_longer_than_one (map single_value res) axis)"
proof -
  obtain r rest where res: "res = r # rest" using assms(1) by (cases res) auto
  obtain it where r: "r = Single it" using assms(2) res by (cases r) simp_all
  obtain n where n: "nd_len (wrap_item it) = Inr n"
    using assms(2) res r by (cases "nd_len (wrap_item it)") simp_all
  have arrs: "sequence_sum (map as_array res) = Inr (map single_value res)"
    by (simp only: sized_single_as_array [OF assms(2)] sequence_sum_Inr)
  have f: "first_longer_than_one (map single_value res) = (n > 1)"
    by (simp add: first_longer_than_one_def longer_than_one_def res r n)
  have "reassemble res axis
        = (case (if n > 1 then np_concatenate (map single_value res) axis
                 else np_concatenate (map single_value res) 0)
           of Inl e \<Rightarrow> Inl e | Inr a \<Rightarrow> Inr (OutArray a))"
    unfolding reassemble_def arrs by (simp add: res r n)
  then show ?thesis
    by (simp add: spec_rule_def f split: sum.splits)
qed

lemma sized_tuple_column:
  assumes "list_all (sized_tuple m) res" "i < m"
  shows "map (output_at (int i)) res = map Inr (map (tuple_value i) res)"
  using assms(1)
proof (induction res)
  case Nil
  then show ?case by simp
next
  case (Cons r res)
  then show ?case
    using assms(2) by (cases r) (simp_all add: py_index_def)
qed

lemma sized_tuple_first:
  assumes "list_all (sized_tuple m) (r # rest)" "i < m"
  shows "\<exists>n. nd_len (tuple_value i r) = Inr n"
proof -
  obtain its where r: "r = Tuple its" using assms(1) by (cases r) simp_all
  have "its ! i \<in> set its" using assms r by simp
  then show ?thesis
    using assms(1) r by (cases "nd_len (wrap_item (its ! i))") (auto simp: list_all_iff)
qed

lemma column_rule:
  assumes "res \<noteq> []" "list_all (sized_tuple m) res" "i < m"
  shows "(case sequence_sum (map (output_at (int i)) res) of
            Inl e \<Rightarrow> Inl e
          | Inr result \<Rightarrow> concat_outputs result axis)
         = spec_rule first_longer_than_one (map (tuple_value i) res) axis"
proof -
  obtain r rest where res: "res = r # rest" using assms(1) by (cases res) auto
  obtain n where n: "nd_len (tuple_value i r) = Inr n"
    using sized_tuple_first [OF assms(2) [unfolded res] assms(3)] by blast
  have col: "sequence_sum (map (output_at (int i)) res) = Inr (map (tuple_value i) res)"
    by (simp only: sized_tuple_column [OF assms(2,3)] sequence_sum_Inr)
  show ?thesis
    unfolding col
    by (simp add: concat_outputs_def spec_rule_def first_longer_than_one_def
        longer_than_one_def res n)
qed

lemma reassemble_tuple:
  assumes "res \<noteq> []" "list_all (sized_tuple m) res"
  shows "reassemble res axis
         = map_sum id OutTuple
             (sequence_sum
                (map (\<lambda>i. spec_rule first_longer_than_one (map (tuple_value i) res) axis)
                   [0..<m]))"
proof -
  obtain r rest where res: "res = r # rest" using assms(1) by (cases res) auto
  obtain its where r: "r = Tuple its" and m: "length its = m"
    using assms(2) res by (cases r) simp_all
  have cols: "map (\<lambda>i. case sequence_sum (map (output_at (int i)) res) of
                          Inl e \<Rightarrow> Inl e
                        | Inr result \<Rightarrow> concat_outputs result axis) [0..<m]
              = map (\<lambda>i. spec_rule first_longer_than_one (map (tuple_value i) res) axis) [0..<m]"
    by (rule map_cong [OF refl]) (simp add: column_rule [OF assms])
  have "reassemble res axis
        = (case sequence_sum
                  (map (\<lambda>i. case sequence_sum (map (output_at (int i)) res) of
                               Inl e \<Rightarrow> Inl e
                             | Inr result \<Rightarrow> concat_outputs result axis)
                     [0..<m])
           of Inl e \<Rightarrow> Inl e | Inr outputs \<Rightarrow> Inr (OutTuple outputs))"
    unfolding reassemble_def by (simp add: res r m)
  then show ?thesis
    unfolding cols by (simp split: sum.splits)
qed

lemma concat_children_singletons:
  assumes "\<forall>v \<in> set vals. nd_len v = Inr 1"
  shows "length (concat (map children vals)) = length vals"
  using assms
proof (induction vals)
  case Nil
  then show ?case by simp
next
  case (Cons v vals)
  then have "nd_len v = Inr 1" by simp
  then have "length (children v) = 1" by (cases v) simp_all
  with Cons show ?case by simp
qed

lemma one_element_per_row:
  assumes "\<forall>v \<in> set vals. nd_len v = Inr 1"
    and "spec_rule first_longer_than_one vals axis = Inr out"
  shows "nd_len out = Inr (length vals)"
proof -
  have "\<not> first_longer_than_one vals"
    using assms(1) by (cases vals) (simp_all add: first_longer_than_one_def longer_than_one_def)
  then have "np_concatenate vals 0 = Inr out"
    using assms(2) by (simp add: spec_rule_def)
  then have "out = nd_concat 0 vals"
    by (auto simp: np_concatenate_def Let_def split: if_splits)
  then show ?thesis
    by (simp add: concat_children_singletons [OF assms(1)])
qed

text \<open>
  C1 (as amended). On a valid input with at least one row, whose tasks return the results
  \<open>res\<close>: if every row returns a single value with a length, \<open>apply_ragged\<close> returns
  those values concatenated along the configured \<open>axis\<close> when the first row's value is
  longer than one element, and along the leading axis otherwise; if every row returns a
  tuple of \<open>m\<close> such values, the same rule is applied to each of the \<open>m\<close> output
  positions independently; and whenever every row's value at a position has length one
  and the concatenation succeeds, the output has exactly one element per row along
  axis \<open>0\<close>, whatever the configured axis is.
\<close>

theorem apply_ragged_reassembly:
  assumes "row_results func arrays rs rows axis = Inr res" and "res \<noteq> []"
  shows "(list_all sized_single res \<longrightarrow>
            apply_ragged func arrays rs rows axis
              = map_sum id OutArray
                  (spec_rule first_longer_than_one (map single_value res) axis))
         \<and> (list_all (sized_tuple m) res \<longrightarrow>
            apply_ragged func arrays rs rows axis
              = map_sum id OutTuple
                  (sequence_sum
                     (map (\<lambda>i. spec_rule first_longer_than_one (map (tuple_value i) res) axis)
                        [0..<m])))
         \<and> ((\<forall>v \<in> set vals. nd_len v = Inr 1)
              \<and> spec_rule first_longer_than_one vals axis = Inr out' \<longrightarrow>
            nd_len out' = Inr (length vals))"
proof -
  have a: "apply_ragged func arrays rs rows axis = reassemble res axis"
    by (simp add: apply_ragged_split assms(1))
  show ?thesis
    unfolding a
    using reassemble_single [OF assms(2), of axis] reassemble_tuple [OF assms(2), of m axis]
      one_element_per_row [of vals axis out']
    by blast
qed

theorem apply_ragged_reassembly_witness:
  "row_results (\<lambda>r. Inr (Single (Scalar (int (length (children (hd (children (hd r)))))))))
      [Node [array1 [1, 2, 3 :: int], array1 [4, 5, 6]]] [2, 1] AllRows 1
     = Inr [Single (Scalar 2), Single (Scalar 1)]
   \<and> apply_ragged (\<lambda>r. Inr (Single (Scalar (int (length (children (hd (children (hd r)))))))))
      [Node [array1 [1, 2, 3 :: int], array1 [4, 5, 6]]] [2, 1] AllRows 1
     = Inr (OutArray (array1 [2, 1]))
   \<and> nd_len (array1 [2, 1 :: int]) = Inr 2"
proof -
  let ?f = "\<lambda>r :: int nd list.
      (Inr (Single (Scalar (int (length (children (hd (children (hd r))))))))
        :: error + int ret)"
  let ?arr = "Node [array1 [1, 2, 3 :: int], array1 [4, 5, 6]]"
  let ?res = "[Single (Scalar 2), Single (Scalar 1)] :: int ret list"
  have r: "row_results ?f [?arr] [2, 1] AllRows 1 = Inr ?res"
    by code_simp
  have ne: "?res \<noteq> []" by simp
  have sz: "list_all sized_single ?res" by simp
  have sp: "spec_rule first_longer_than_one (map single_value ?res) 1
            = Inr (array1 [2, 1])"
    by code_simp
  have "apply_ragged ?f [?arr] [2, 1] AllRows 1
        = map_sum id OutArray (spec_rule first_longer_than_one (map single_value ?res) 1)"
    using apply_ragged_reassembly [OF r ne] sz by blast
  then have a: "apply_ragged ?f [?arr] [2, 1] AllRows 1 = Inr (OutArray (array1 [2, 1]))"
    unfolding sp by simp
  have l: "nd_len (array1 [2, 1 :: int]) = Inr 2"
    by (simp add: array1_def)
  show ?thesis using r a l by blast
qed

text \<open>
  The rule as the specification states it asks for every row's value to be longer than one
  element. On the array \<open>[[1,2,3],[4,5,6]]\<close> with row sizes \<open>[2,1]\<close> along axis \<open>1\<close>, the
  function \<open>lambda r: r[0]\<close> returns \<open>[1,2]\<close> and \<open>[3]\<close>: not every value is longer than
  one element, so the stated rule concatenates along the leading axis and gives
  \<open>[1,2,3]\<close>, while the source looks at the first value, concatenates along axis \<open>1\<close>,
  and raises.
\<close>

theorem apply_ragged_every_row_counterexample:
  "validate_rowsize [Node [array1 [1, 2, 3 :: int], array1 [4, 5, 6]]] [2, 1] 1 = Inr ()
   \<and> row_results (\<lambda>r. Inr (Single (Array (hd (children (hd r))))))
        [Node [array1 [1, 2, 3 :: int], array1 [4, 5, 6]]] [2, 1] AllRows 1
       = Inr [Single (Array (array1 [1, 2])), Single (Array (array1 [3]))]
   \<and> \<not> every_longer_than_one [array1 [1, 2], array1 [3 :: int]]
   \<and> spec_rule every_longer_than_one [array1 [1, 2], array1 [3 :: int]] 1
       = Inr (array1 [1, 2, 3])
   \<and> apply_ragged (\<lambda>r. Inr (Single (Array (hd (children (hd r))))))
        [Node [array1 [1, 2, 3 :: int], array1 [4, 5, 6]]] [2, 1] AllRows 1
       = (Inl AxisError :: error + int out)"
  by code_simp

subsection \<open>Dataset subsetter: criteria on other dimensions\<close>

lemma ds_getitem_known: "ds_getitem ds k = Inr v \<Longrightarrow> ds_known ds k"
  by (auto simp: ds_getitem_def ds_known_def split: option.splits)

lemma criteria_step_ignored:
  assumes "ds_getitem ds k = Inr v" "vdim v \<noteq> rd" "vdim v \<noteq> od"
  shows "criteria_step ds rs rd od masks (Name k, c) = Inr masks"
  using assms ds_getitem_known [OF assms(1)]
  by (simp add: criteria_step_def Let_def)

lemma apply_criteria_append:
  "apply_criteria ds rs rd od masks (cs1 @ cs2) =
     (case apply_criteria ds rs rd od masks cs1 of
        Inl e \<Rightarrow> Inl e
      | Inr masks' \<Rightarrow> apply_criteria ds rs rd od masks' cs2)"
  by (induction cs1 arbitrary: masks) (simp_all split: sum.splits)

lemma apply_criteria_ignored:
  assumes "ds_getitem ds k = Inr v" "vdim v \<noteq> rd" "vdim v \<noteq> od"
  shows "apply_criteria ds rs rd od masks (cs1 @ (Name k, c) # cs2)
         = apply_criteria ds rs rd od masks (cs1 @ cs2)"
  by (simp add: apply_criteria_append criteria_step_ignored [OF assms] split: sum.splits)

lemma subset_ignored:
  assumes "ds_getitem ds k = Inr v" "vdim v \<noteq> rd" "vdim v \<noteq> od"
  shows "subset ds (cs1 @ (Name k, c) # cs2) idv rs rd od full
         = subset ds (cs1 @ cs2) idv rs rd od full"
  unfolding subset_def apply_criteria_ignored [OF assms] ..

text \<open>
  C10. A criterion whose key names a variable, or a dimension, of the dataset that lives
  on neither the row dimension nor the observation dimension is ignored: its iteration
  raises nothing and returns both masks as they were, and \<open>subset\<close> gives the same
  result with and without it, wherever it stands among the criteria.
\<close>

theorem subset_ignores_foreign_criterion:
  assumes "ds_getitem ds k = Inr v" and "vdim v \<noteq> rd" and "vdim v \<noteq> od"
  shows "criteria_step ds rs rd od masks (Name k, c) = Inr masks
         \<and> subset ds (cs1 @ (Name k, c) # cs2) idv rs rd od full
             = subset ds (cs1 @ cs2) idv rs rd od full"
  using criteria_step_ignored [OF assms] subset_ignored [OF assms] by blast

theorem subset_ignores_foreign_criterion_witness:
  "subset
      \<lparr>sizes = [(''rows'', 2), (''obs'', 3), (''depth'', 1)],
         variables = [(''id'', \<lparr>vdim = ''rows'', vvalues = [7, 8]\<rparr>),
                      (''rowsize'', \<lparr>vdim = ''rows'', vvalues = [2, 1]\<rparr>),
                      (''lat'', \<lparr>vdim = ''obs'', vvalues = [5, 6, 7]\<rparr>),
                      (''z'', \<lparr>vdim = ''depth'', vvalues = [0]\<rparr>)]\<rparr>
      [(Name ''lat'', Range 6 7), (Name ''z'', Equals 4)] ''id'' ''rowsize'' ''rows'' ''obs'' False
   = Inr ([], \<lparr>sizes = [(''rows'', 2), (''obs'', 2), (''depth'', 1)],
         variables = [(''id'', \<lparr>vdim = ''rows'', vvalues = [7, 8]\<rparr>),
                      (''rowsize'', \<lparr>vdim = ''rows'', vvalues = [1, 1]\<rparr>),
                      (''lat'', \<lparr>vdim = ''obs'', vvalues = [6, 7]\<rparr>),
                      (''z'', \<lparr>vdim = ''depth'', vvalues = [0]\<rparr>)]\<rparr>)"
proof -
  let ?ds = "\<lparr>sizes = [(''rows'', 2), (''obs'', 3), (''depth'', 1)],
         variables = [(''id'', \<lparr>vdim = ''rows'', vvalues = [7, 8]\<rparr>),
                      (''rowsize'', \<lparr>vdim = ''rows'', vvalues = [2, 1]\<rparr>),
                      (''lat'', \<lparr>vdim = ''obs'', vvalues = [5, 6, 7]\<rparr>),
                      (''z'', \<lparr>vdim = ''depth'', vvalues = [0]\<rparr>)]\<rparr>"
  have g: "ds_getitem ?ds ''z'' = Inr \<lparr>vdim = ''depth'', vvalues = [0]\<rparr>"
    by (simp add: ds_getitem_def)
  have d1: "vdim \<lparr>vdim = ''depth'', vvalues = [0]\<rparr> \<noteq> ''rows''" by simp
  have d2: "vdim \<lparr>vdim = ''depth'', vvalues = [0]\<rparr> \<noteq> ''obs''" by simp
  have "subset ?ds ([(Name ''lat'', Range 6 7)] @ (Name ''z'', Equals 4) # [])
          ''id'' ''rowsize'' ''rows'' ''obs'' False
        = subset ?ds ([(Name ''lat'', Range 6 7)] @ []) ''id'' ''rowsize'' ''rows'' ''obs'' False"
    using subset_ignores_foreign_criterion [OF g d1 d2] by blast
  moreover have "subset ?ds [(Name ''lat'', Range 6 7)] ''id'' ''rowsize'' ''rows'' ''obs'' False
    = Inr ([], \<lparr>sizes = [(''rows'', 2), (''obs'', 2), (''depth'', 1)],
         variables = [(''id'', \<lparr>vdim = ''rows'', vvalues = [7, 8]\<rparr>),
                      (''rowsize'', \<lparr>vdim = ''rows'', vvalues = [1, 1]\<rparr>),
                      (''lat'', \<lparr>vdim = ''obs'', vvalues = [6, 7]\<rparr>),
                      (''z'', \<lparr>vdim = ''depth'', vvalues = [0]\<rparr>)]\<rparr>)"
    by code_simp
  ultimately show ?thesis by simp
qed

subsection \<open>Dataset subsetter: selection and assignment\<close>

lemma map_of_map_sizes:
  "map_of (map (\<lambda>(d, n). if d = dname then (d, c) else (d, n)) xs) k
   = (if k = dname then map_option (\<lambda>_. c) (map_of xs k) else map_of xs k)"
  by (induction xs) auto

lemma map_of_map_vars:
  "map_of (map (\<lambda>(k, v). if P k v then (k, f v) else (k, v)) xs) k
   = map_option (\<lambda>v. if P k v then f v else v) (map_of xs k)"
  by (induction xs) auto

lemma isel_sizes:
  assumes "isel ds dname m = Inr d"
  shows "map_of (sizes d) k
         = (if k = dname then Some (length (filter id m)) else map_of (sizes ds) k)"
  using assms
  by (auto simp: isel_def map_of_map_sizes split: if_splits)

lemma isel_variables:
  assumes "isel ds dname m = Inr d"
  shows "map_of (variables d) k
         = map_option (\<lambda>v. if vdim v = dname
                             then v\<lparr>vvalues := map fst (filter snd (zip (vvalues v) m))\<rparr>
                             else v)
             (map_of (variables ds) k)"
proof -
  have d: "variables d = map (\<lambda>(k, v). if vdim v = dname
                                    then (k, v\<lparr>vvalues := map fst (filter snd (zip (vvalues v) m))\<rparr>)
                                    else (k, v))
                              (variables ds)"
    using assms by (auto simp: isel_def split: if_splits)
  show ?thesis
    unfolding d
    using map_of_map_vars [of "\<lambda>k v. vdim v = dname"
        "\<lambda>v. v\<lparr>vvalues := map fst (filter snd (zip (vvalues v) m))\<rparr>" "variables ds" k]
    by simp
qed

lemma set_values_sizes:
  assumes "set_values ds name new = Inr d"
  shows "sizes d = sizes ds"
  using assms by (auto simp: set_values_def split: option.splits if_splits)

lemma set_values_variables:
  assumes "set_values ds name new = Inr d"
  shows "map_of (variables d) k
         = (if k = name then map_option (\<lambda>v. v\<lparr>vvalues := new\<rparr>) (map_of (variables ds) k)
            else map_of (variables ds) k)"
proof -
  have d: "variables d = map (\<lambda>(k, w). if k = name then (k, w\<lparr>vvalues := new\<rparr>) else (k, w))
                           (variables ds)"
    using assms by (auto simp: set_values_def split: option.splits if_splits)
  show ?thesis
    unfolding d
    using map_of_map_vars [of "\<lambda>k v. k = name" "\<lambda>v. v\<lparr>vvalues := new\<rparr>" "variables ds" k]
    by (auto simp: map_option_case split: option.splits)
qed

lemma set_values_length:
  assumes "set_values ds name new = Inr d"
  shows "\<exists>v. map_of (variables ds) name = Some v \<and> length new = length (vvalues v)"
  using assms by (auto simp: set_values_def split: option.splits if_splits)

lemma subset_Inr:
  assumes "subset ds criteria idv rs rd od full = Inr res"
  obtains nr no masks st mo ids where
    "ds_size ds rd = Inr nr" "ds_size ds od = Inr no"
    "apply_criteria ds rs rd od (replicate nr True, replicate no True) criteria = Inr masks"
    "propagate ds idv rs masks = Inr st"
    "widen full st = Inr (mo, ids)"
    "materialize ds rs rd od (fst st) mo ids = Inr res"
  using assms unfolding subset_def
  by (auto split: sum.splits prod.splits)

lemma materialize_nonempty:
  assumes "materialize ds rs rd od mr mo ids = Inr (w, r)"
    and "r \<noteq> \<lparr>sizes = [], variables = []\<rparr>"
  obtains ds_sub where "list_ex id mr" "w = []"
    "(if rd = od then isel ds od mo
      else case isel ds rd mr of Inl e \<Rightarrow> Inl e | Inr d \<Rightarrow> isel d od mo) = Inr ds_sub"
    "set_values ds_sub rs (recount_rowsize ids) = Inr r"
  using assms unfolding materialize_def
  by (auto split: if_splits sum.splits)

subsection \<open>Dataset subsetter: widening to full rows\<close>

lemma length_set_slice: "length (set_slice m s e v) = length m"
  by (simp add: set_slice_def Let_def)

lemma nth_set_slice_True:
  assumes "j < length m" "m ! j"
  shows "set_slice m s e True ! j"
  using assms by (simp add: set_slice_def Let_def)

lemma set_rows_True_mono:
  assumes "set_rows traj_idx rws True m = Inr m'"
  shows "length m' = length m \<and> (\<forall>j < length m. m ! j \<longrightarrow> m' ! j)"
  using assms
proof (induction rws arbitrary: m)
  case Nil
  then show ?case by simp
next
  case (Cons i rws)
  from Cons.prems obtain s e where
    r: "set_rows traj_idx rws True (set_slice m s e True) = Inr m'"
    by (auto split: sum.splits)
  from Cons.IH [OF r] show ?case
    by (auto simp: length_set_slice nth_set_slice_True)
qed

lemma count_true_mono:
  assumes "length a = length b" "\<forall>j < length a. a ! j \<longrightarrow> b ! j"
  shows "length (filter id a) \<le> length (filter id b)"
  using assms
proof (induction a b rule: list_induct2)
  case Nil
  then show ?case by simp
next
  case (Cons x xs y ys)
  have "\<forall>j < length xs. xs ! j \<longrightarrow> ys ! j"
    using Cons.prems by (metis Suc_less_eq length_Cons nth_Cons_Suc)
  moreover have "x \<longrightarrow> y" using Cons.prems by (metis length_Cons nth_Cons_0 zero_less_Suc)
  ultimately show ?case using Cons.IH by auto
qed

lemma widen_mask_obs:
  assumes "widen False (mr, mo, ids, rep, ti) = Inr (mo1, ids1)"
    and "widen True (mr, mo, ids, rep, ti) = Inr (mo2, ids2)"
  shows "length (filter id mo1) \<le> length (filter id mo2)"
proof -
  have 1: "mo1 = mo" using assms(1) by (simp add: widen_def)
  have "set_rows ti (np_where mr) True mo = Inr mo2"
    using assms(2) by (auto simp: widen_def split: sum.splits)
  from set_rows_True_mono [OF this] show ?thesis
    unfolding 1 by (intro count_true_mono) auto
qed

subsection \<open>Dataset subsetter: the two modes select the same rows\<close>

lemma materialize_rows:
  assumes "list_ex id mr" "rd \<noteq> od"
    and "materialize ds rs rd od mr mo ids = Inr (w, r)"
  obtains d1 d2 where "isel ds rd mr = Inr d1" "isel d1 od mo = Inr d2"
    "set_values d2 rs (recount_rowsize ids) = Inr r" "w = []"
  using assms unfolding materialize_def
  by (auto split: if_splits sum.splits)

lemma materialized_sizes:
  assumes "rd \<noteq> od" "isel ds rd mr = Inr d1" "isel d1 od mo = Inr d2"
    and "set_values d2 rs new = Inr r"
  shows "map_of (sizes r) od = Some (length (filter id mo))"
    and "map_of (sizes r) rd = Some (length (filter id mr))"
  using assms(1) isel_sizes [OF assms(2)] isel_sizes [OF assms(3)] set_values_sizes [OF assms(4)]
  by simp_all

lemma materialized_row_variable:
  assumes "rd \<noteq> od" "isel ds rd mr = Inr d1" "isel d1 od mo = Inr d2"
    and "set_values d2 rs new = Inr r"
    and "k \<noteq> rs" "map_of (variables ds) k = Some v" "vdim v = rd"
  shows "map_of (variables r) k
         = Some (v\<lparr>vvalues := map fst (filter snd (zip (vvalues v) mr))\<rparr>)"
  using assms(1,5,6,7) isel_variables [OF assms(2), of k] isel_variables [OF assms(3), of k]
    set_values_variables [OF assms(4), of k]
  by simp

lemma full_rows_both:
  assumes "rd \<noteq> od"
    and "subset ds criteria idv rs rd od False = Inr (w1, r1)"
    and "subset ds criteria idv rs rd od True = Inr (w2, r2)"
    and "r1 \<noteq> \<lparr>sizes = [], variables = []\<rparr>"
  shows "\<exists>mask_row n1 n2.
           map_of (sizes r1) od = Some n1 \<and> map_of (sizes r2) od = Some n2 \<and> n1 \<le> n2
           \<and> map_of (sizes r1) rd = Some (length (filter id mask_row))
           \<and> map_of (sizes r2) rd = Some (length (filter id mask_row))
           \<and> (\<forall>k v. k \<noteq> rs \<and> map_of (variables ds) k = Some v \<and> vdim v = rd \<longrightarrow>
                 map_of (variables r1) k
                   = Some (v\<lparr>vvalues := map fst (filter snd (zip (vvalues v) mask_row))\<rparr>)
                 \<and> map_of (variables r2) k
                   = Some (v\<lparr>vvalues := map fst (filter snd (zip (vvalues v) mask_row))\<rparr>))"
proof -
  from assms(2) obtain nr no masks st mo1 ids1 where a:
    "ds_size ds rd = Inr nr" "ds_size ds od = Inr no"
    "apply_criteria ds rs rd od (replicate nr True, replicate no True) criteria = Inr masks"
    "propagate ds idv rs masks = Inr st"
    "widen False st = Inr (mo1, ids1)"
    "materialize ds rs rd od (fst st) mo1 ids1 = Inr (w1, r1)"
    by (rule subset_Inr)
  from assms(3) obtain nr' no' masks' st' mo2 ids2 where b:
    "ds_size ds rd = Inr nr'" "ds_size ds od = Inr no'"
    "apply_criteria ds rs rd od (replicate nr' True, replicate no' True) criteria = Inr masks'"
    "propagate ds idv rs masks' = Inr st'"
    "widen True st' = Inr (mo2, ids2)"
    "materialize ds rs rd od (fst st') mo2 ids2 = Inr (w2, r2)"
    by (rule subset_Inr)
  have "nr' = nr" "no' = no" using a(1,2) b(1,2) by simp_all
  then have "masks' = masks" using a(3) b(3) by simp
  then have st: "st' = st" using a(4) b(4) by simp
  obtain mr mo ids rep ti where t: "st = (mr, mo, ids, rep, ti)" by (cases st)
  have mr: "fst st = mr" by (simp add: t)
  from a(6) assms(4) have ex: "list_ex id mr"
    unfolding mr by (rule materialize_nonempty)
  from materialize_rows [OF ex assms(1) a(6) [unfolded mr]] obtain d1 d2 where
    1: "isel ds rd mr = Inr d1" "isel d1 od mo1 = Inr d2"
       "set_values d2 rs (recount_rowsize ids1) = Inr r1"
    by blast
  from materialize_rows [OF ex assms(1) b(6) [unfolded st mr]] obtain e1 e2 where
    2: "isel ds rd mr = Inr e1" "isel e1 od mo2 = Inr e2"
       "set_values e2 rs (recount_rowsize ids2) = Inr r2"
    by blast
  have le: "length (filter id mo1) \<le> length (filter id mo2)"
    using widen_mask_obs a(5) b(5) unfolding st t by blast
  show ?thesis
    using le materialized_sizes [OF assms(1) 1] materialized_sizes [OF assms(1) 2]
      materialized_row_variable [OF assms(1) 1] materialized_row_variable [OF assms(1) 2]
    by (intro exI [of _ mr] exI [of _ "length (filter id mo1)"]
        exI [of _ "length (filter id mo2)"]) simp
qed

subsection \<open>Dataset subsetter: recounting the row sizes\<close>

lemma length_np_argsort: "length (np_argsort xs) = length xs"
  by (simp add: np_argsort_def)

lemma mset_np_argsort: "mset (np_argsort xs) = mset [0..<length xs]"
proof -
  let ?zs = "zip xs [0..<length xs]"
  have z: "map snd ?zs = [0..<length xs]"
    by (rule map_snd_zip) simp
  have "mset (map snd (sort_key fst ?zs)) = image_mset snd (mset (sort_key fst ?zs))"
    by (simp only: mset_map)
  also have "\<dots> = image_mset snd (mset ?zs)"
    by (simp only: mset_sort)
  also have "\<dots> = mset (map snd ?zs)"
    by (simp only: mset_map)
  finally show ?thesis
    unfolding np_argsort_def z .
qed

lemma permuted_nth:
  assumes "mset p = mset [0..<length cs]"
  shows "mset (map (\<lambda>k. cs ! k) p) = mset cs"
proof -
  have "mset (map (\<lambda>k. cs ! k) p) = image_mset (\<lambda>k. cs ! k) (mset p)"
    by (simp only: mset_map)
  also have "\<dots> = image_mset (\<lambda>k. cs ! k) (mset [0..<length cs])"
    by (simp only: assms)
  also have "\<dots> = mset (map (\<lambda>k. cs ! k) [0..<length cs])"
    by (simp only: mset_map)
  also have "\<dots> = mset cs"
    by (simp only: map_nth)
  finally show ?thesis .
qed

lemma mset_recount_rowsize:
  "mset (recount_rowsize ids)
   = mset (map (\<lambda>v. int (count_list ids v)) (sort (remdups ids)))"
proof -
  let ?u = "sort (remdups ids)"
  let ?cs = "map (\<lambda>v. int (count_list ids v)) ?u"
  let ?p = "np_argsort (map (first_index ids) ?u)"
  have "mset ?p = mset [0..<length ?cs]"
    by (simp only: mset_np_argsort length_map)
  from permuted_nth [OF this] show ?thesis
    by (simp add: recount_rowsize_def Let_def)
qed

lemma length_recount_rowsize: "length (recount_rowsize ids) = card (set ids)"
proof -
  have "length (recount_rowsize ids) = size (mset (recount_rowsize ids))" by simp
  also have "\<dots> = length (sort (remdups ids))"
    by (simp only: mset_recount_rowsize size_mset length_map)
  also have "\<dots> = card (set ids)"
    by (simp add: length_remdups_card_conv)
  finally show ?thesis .
qed

lemma sum_count_distinct:
  assumes "distinct u" "set u = set ids"
  shows "sum_list (map (\<lambda>v. int (count_list ids v)) u) = int (length ids)"
proof -
  have "sum_list (map (\<lambda>v. int (count_list ids v)) u)
        = (\<Sum>v \<in> set u. int (count_list ids v))"
    using assms(1) by (simp add: sum_list_distinct_conv_sum_set)
  also have "\<dots> = int (\<Sum>v \<in> set ids. count_list ids v)"
    by (simp add: assms(2))
  also have "(\<Sum>v \<in> set ids. count_list ids v) = length ids"
    by (rule sum_count_set) simp_all
  finally show ?thesis .
qed

lemma sum_recount_rowsize: "sum_list (recount_rowsize ids) = int (length ids)"
proof -
  have "sum_list (recount_rowsize ids) = sum_mset (mset (recount_rowsize ids))"
    by (simp add: sum_mset_sum_list)
  also have "\<dots> = sum_list (map (\<lambda>v. int (count_list ids v)) (sort (remdups ids)))"
    by (simp only: mset_recount_rowsize sum_mset_sum_list)
  also have "\<dots> = int (length ids)"
    by (rule sum_count_distinct) simp_all
  finally show ?thesis .
qed

lemma length_compress:
  assumes "np_compress x m = Inr y"
  shows "length y = length (filter id m)" and "length m = length x"
proof -
  show len: "length m = length x"
    using assms by (auto simp: np_compress_def split: if_splits)
  have y: "y = map fst (filter snd (zip x m))"
    using assms by (auto simp: np_compress_def split: if_splits)
  have "length (filter snd (zip x m)) = length (filter id m)"
    using len
  proof (induction m x rule: list_induct2)
    case Nil
    then show ?case by simp
  next
    case (Cons b bs a as)
    then show ?case by simp
  qed
  then show "length y = length (filter id m)" by (simp add: y)
qed

subsection \<open>Dataset subsetter: observations and their rows\<close>

lemma traj_index_Cons: "traj_index rsz = 0 # cumsum_from 0 rsz"
  by (simp add: traj_index_def np_cumsum_def)

lemma cumsum_from_nonneg:
  assumes "\<forall>r \<in> set rsz. (0 :: int) \<le> r" "x \<in> set (cumsum_from acc rsz)"
  shows "acc \<le> x"
  using assms
proof (induction rsz arbitrary: acc)
  case Nil
  then show ?case by simp
next
  case (Cons r rsz)
  then show ?case by force
qed

lemma sorted_cumsum_from:
  assumes "\<forall>r \<in> set rsz. (0 :: int) \<le> r"
  shows "sorted (acc # cumsum_from acc rsz)"
  using assms
proof (induction rsz arbitrary: acc)
  case Nil
  then show ?case by simp
next
  case (Cons r rsz)
  have "sorted ((acc + r) # cumsum_from (acc + r) rsz)"
    using Cons by simp
  moreover have "\<forall>x \<in> set ((acc + r) # cumsum_from (acc + r) rsz). acc \<le> x"
    using Cons.prems cumsum_from_nonneg [of rsz _ "acc + r"] by force
  ultimately show ?case by simp
qed

lemma nth_set_slice:
  assumes "0 \<le> s" "0 \<le> e" "j < length m"
  shows "set_slice m s e v ! j = (if s \<le> int j \<and> int j < e then v else m ! j)"
proof -
  have lo: "slice_bound (length m) s \<le> j \<longleftrightarrow> s \<le> int j"
    using assms by (auto simp: slice_bound_def min_def)
  have hi: "j < slice_bound (length m) e \<longleftrightarrow> int j < e"
    using assms by (auto simp: slice_bound_def min_def)
  show ?thesis
    using assms(3) by (simp add: set_slice_def Let_def lo hi)
qed

lemma py_index_nat:
  assumes "py_index xs (int i) = Inr x"
  shows "i < length xs \<and> x = xs ! i"
  using assms by (auto simp: py_index_def split: if_splits)

lemma py_index_Suc:
  assumes "py_index xs (int i + 1) = Inr x"
  shows "Suc i < length xs \<and> x = xs ! Suc i"
proof -
  have "int i + 1 = int (Suc i)" by simp
  then have "py_index xs (int (Suc i)) = Inr x" using assms by (simp only:)
  then show ?thesis by (rule py_index_nat)
qed

lemma set_rows_nth:
  assumes "set_rows ti rws v m = Inr m'" "\<forall>x \<in> set ti. 0 \<le> x"
  shows "length m' = length m
         \<and> (\<forall>j < length m. m' ! j
              = (if \<exists>i \<in> set rws. ti ! i \<le> int j \<and> int j < ti ! Suc i then v else m ! j))"
  using assms(1)
proof (induction rws arbitrary: m)
  case Nil
  then show ?case by simp
next
  case (Cons i rws)
  from Cons.prems obtain s e where
    s: "py_index ti (int i) = Inr s" and e: "py_index ti (int i + 1) = Inr e"
    and r: "set_rows ti rws v (set_slice m s e v) = Inr m'"
    by (auto split: sum.splits)
  have si: "s = ti ! i" "i < length ti" using py_index_nat [OF s] by simp_all
  have ei: "e = ti ! Suc i" "Suc i < length ti" using py_index_Suc [OF e] by simp_all
  have s0: "0 \<le> s" using si assms(2) by simp
  have e0: "0 \<le> e" using ei assms(2) by simp
  from Cons.IH [OF r] have
    len: "length m' = length m"
    and nth: "\<forall>j < length m. m' ! j
       = (if \<exists>i \<in> set rws. ti ! i \<le> int j \<and> int j < ti ! Suc i then v
          else set_slice m s e v ! j)"
    by (simp_all add: length_set_slice)
  show ?case
  proof (intro conjI allI impI)
    show "length m' = length m" by (rule len)
  next
    fix j assume j: "j < length m"
    show "m' ! j = (if \<exists>k \<in> set (i # rws). ti ! k \<le> int j \<and> int j < ti ! Suc k
                    then v else m ! j)"
      using nth j nth_set_slice [OF s0 e0 j, of v] si(1) ei(1) by auto
  qed
qed

lemma repeat_row:
  assumes "length ids = length rsz" "\<forall>r \<in> set rsz. 0 \<le> r"
    and "j < length (concat (map (\<lambda>(x, r). replicate (nat r) x) (zip ids rsz)))"
  shows "\<exists>r < length ids.
           (acc # cumsum_from acc rsz) ! r \<le> acc + int j
           \<and> acc + int j < (acc # cumsum_from acc rsz) ! Suc r
           \<and> concat (map (\<lambda>(x, r). replicate (nat r) x) (zip ids rsz)) ! j = ids ! r"
  using assms
proof (induction ids rsz arbitrary: acc j rule: list_induct2)
  case Nil
  then show ?case by simp
next
  case (Cons x xs r rs)
  let ?rest = "concat (map (\<lambda>(x, r). replicate (nat r) x) (zip xs rs))"
  have r0: "0 \<le> r" using Cons.prems(1) by simp
  show ?case
  proof (cases "j < nat r")
    case True
    then show ?thesis
      using r0 by (intro exI [of _ 0]) (simp add: nth_append)
  next
    case False
    define j' where "j' = j - nat r"
    have j': "j' < length ?rest" using Cons.prems(2) False by (simp add: j'_def)
    have rs0: "\<forall>r \<in> set rs. 0 \<le> r" using Cons.prems(1) by simp
    from Cons.IH [OF rs0 j', of "acc + r"] obtain k where k: "k < length xs"
      "((acc + r) # cumsum_from (acc + r) rs) ! k \<le> acc + r + int j'"
      "acc + r + int j' < ((acc + r) # cumsum_from (acc + r) rs) ! Suc k"
      "?rest ! j' = xs ! k"
      by blast
    have jj: "acc + r + int j' = acc + int j" using False r0 by (simp add: j'_def)
    show ?thesis
      using k False unfolding jj
      by (intro exI [of _ "Suc k"]) (simp add: nth_append j'_def)
  qed
qed

subsection \<open>Dataset subsetter: propagation between the masks\<close>

lemma np_logical_and_Inr:
  assumes "np_logical_and a b = Inr c"
  shows "length c = length a" "length b = length a" "\<forall>j < length a. c ! j = (a ! j \<and> b ! j)"
  using assms by (auto simp: np_logical_and_def split: if_splits)

lemma criteria_step_lengths:
  assumes "criteria_step ds rs rd od masks kc = Inr masks'"
  shows "length (fst masks') = length (fst masks) \<and> length (snd masks') = length (snd masks)"
  using assms unfolding criteria_step_def Let_def
  by (auto split: if_splits sum.splits list.splits dest: np_logical_and_Inr(1))

lemma apply_criteria_lengths:
  assumes "apply_criteria ds rs rd od masks cs = Inr masks'"
  shows "length (fst masks') = length (fst masks) \<and> length (snd masks') = length (snd masks)"
  using assms
proof (induction cs arbitrary: masks)
  case Nil
  then show ?case by simp
next
  case (Cons kc cs)
  then obtain m where 1: "criteria_step ds rs rd od masks kc = Inr m"
    and 2: "apply_criteria ds rs rd od m cs = Inr masks'"
    by (auto split: sum.splits)
  show ?case
    using criteria_step_lengths [OF 1] Cons.IH [OF 2] by simp
qed

lemma ds_getitem_variable:
  "map_of (variables ds) name = Some v \<Longrightarrow> ds_getitem ds name = Inr v"
  by (simp add: ds_getitem_def)

lemma propagate_Inr:
  assumes "propagate ds idv rs masks = Inr (mr, mo1, ids1, rep, ti)"
    and "map_of (variables ds) idv = Some iv" "map_of (variables ds) rs = Some rv"
  shows "ti = traj_index (vvalues rv)"
    and "set_rows ti (np_where (map Not (fst masks))) False (snd masks) = Inr mo1"
    and "np_repeat (vvalues iv) (vvalues rv) = Inr rep"
    and "np_compress rep mo1 = Inr ids1"
    and "np_logical_and (fst masks) (map (\<lambda>i. i \<in> set ids1) (vvalues iv)) = Inr mr"
  using assms(1)
  unfolding propagate_def ds_getitem_variable [OF assms(2)] ds_getitem_variable [OF assms(3)]
  by (auto simp: Let_def split: sum.splits)

lemma set_np_where: "set (np_where bs) = {i. i < length bs \<and> bs ! i}"
  by (auto simp: np_where_def)

lemma set_compress:
  assumes "length m = length x"
  shows "set (map fst (filter snd (zip x m))) = {x ! j | j. j < length x \<and> m ! j}"
proof -
  have "set (filter snd (zip x m)) = {(x ! j, m ! j) | j. j < length x \<and> m ! j}"
    using assms by (auto simp: set_zip)
  then show ?thesis by (auto simp: image_iff)
qed

lemma obs_row:
  assumes "np_repeat ids rsz = Inr rep" "length rsz = length ids" "j < length rep"
  shows "\<exists>r < length ids. traj_index rsz ! r \<le> int j \<and> int j < traj_index rsz ! Suc r
           \<and> rep ! j = ids ! r"
proof -
  have nn: "\<forall>r \<in> set rsz. 0 \<le> r"
    using assms(1,2) by (auto simp: np_repeat_def split: if_splits)
  have rep: "rep = concat (map (\<lambda>(x, r). replicate (nat r) x) (zip ids rsz))"
    using assms(1,2) by (auto simp: np_repeat_def split: if_splits)
  show ?thesis
    using repeat_row [OF assms(2) [symmetric] nn assms(3) [unfolded rep], of 0]
    unfolding traj_index_Cons rep by simp
qed

lemma repeat_nonneg:
  assumes "np_repeat ids rsz = Inr rep"
  shows "\<forall>r \<in> set rsz. 0 \<le> r"
  using assms by (auto simp: np_repeat_def split: if_splits)

lemma traj_index_facts:
  assumes "\<forall>r \<in> set rsz. 0 \<le> r"
  shows "sorted (traj_index rsz)" "\<forall>x \<in> set (traj_index rsz). 0 \<le> x"
    "length (traj_index rsz) = Suc (length rsz)"
proof -
  show s: "sorted (traj_index rsz)"
    unfolding traj_index_Cons by (rule sorted_cumsum_from [OF assms])
  show "\<forall>x \<in> set (traj_index rsz). 0 \<le> x"
    unfolding traj_index_Cons using cumsum_from_nonneg [OF assms, of _ 0] by auto
  show "length (traj_index rsz) = Suc (length rsz)"
    unfolding traj_index_Cons by (simp add: length_cumsum_from)
qed

lemma row_unique:
  assumes "sorted (ti :: int list)" "Suc i < length ti" "Suc r < length ti"
    and "ti ! i \<le> j" "j < ti ! Suc i" "ti ! r \<le> j" "j < ti ! Suc r"
  shows "i = r"
proof (rule ccontr)
  assume "i \<noteq> r"
  then consider "Suc i \<le> r" | "Suc r \<le> i" by linarith
  then show False
  proof cases
    case 1
    then have "ti ! Suc i \<le> ti ! r"
      using assms(1,3) by (simp add: sorted_nth_mono)
    then show False using assms(5,6) by simp
  next
    case 2
    then have "ti ! Suc r \<le> ti ! i"
      using assms(1,2) by (simp add: sorted_nth_mono)
    then show False using assms(4,7) by simp
  qed
qed

subsection \<open>Dataset subsetter: identifiers of the surviving observations\<close>

lemma surviving_partial:
  assumes len: "length rsz = length ids" "length mr0 = length ids"
    and rep: "np_repeat ids rsz = Inr rep"
    and c1: "set_rows (traj_index rsz) (np_where (map Not mr0)) False mo0 = Inr mo1"
    and k1: "np_compress rep mo1 = Inr ids1"
    and la: "np_logical_and mr0 (map (\<lambda>i. i \<in> set ids1) ids) = Inr mr"
    and j: "j < length rep" "mo1 ! j"
  shows "\<exists>r < length ids. mr ! r \<and> ids ! r = rep ! j"
proof -
  let ?ti = "traj_index rsz"
  note nn = repeat_nonneg [OF rep]
  note ti = traj_index_facts [OF nn]
  have lmo1: "length mo1 = length rep" using length_compress(2) [OF k1] .
  have ids1: "ids1 = map fst (filter snd (zip rep mo1))"
    using k1 by (auto simp: np_compress_def split: if_splits)
  from set_rows_nth [OF c1 ti(2)] have
    lmo0: "length mo1 = length mo0"
    and nth: "\<forall>j < length mo0. mo1 ! j
       = (if \<exists>i \<in> set (np_where (map Not mr0)). ?ti ! i \<le> int j \<and> int j < ?ti ! Suc i
          then False else mo0 ! j)"
    by simp_all
  from obs_row [OF rep len(1) j(1)] obtain r where r: "r < length ids"
    "?ti ! r \<le> int j" "int j < ?ti ! Suc r" "rep ! j = ids ! r"
    by blast
  have "j < length mo0" using j(1) lmo1 lmo0 by simp
  with nth j(2) have "\<not> (\<exists>i \<in> set (np_where (map Not mr0)).
      ?ti ! i \<le> int j \<and> int j < ?ti ! Suc i)"
    by (metis (no_types, lifting))
  then have "r \<notin> set (np_where (map Not mr0))" using r(2,3) by blast
  then have m0: "mr0 ! r" using r(1) len(2) by (simp add: set_np_where)
  have "rep ! j \<in> set ids1"
    unfolding ids1 set_compress [OF lmo1] using j by blast
  then have "ids ! r \<in> set ids1" using r(4) by simp
  then have "mr ! r"
    using np_logical_and_Inr(3) [OF la] m0 r(1) len(2) by simp
  with r(1,4) show ?thesis by auto
qed

lemma surviving_ids_subset:
  assumes len: "length rsz = length ids" "length mr0 = length ids"
    and rep: "np_repeat ids rsz = Inr rep"
    and c1: "set_rows (traj_index rsz) (np_where (map Not mr0)) False mo0 = Inr mo1"
    and k1: "np_compress rep mo1 = Inr ids1"
    and la: "np_logical_and mr0 (map (\<lambda>i. i \<in> set ids1) ids) = Inr mr"
    and w: "widen full (mr, mo1, ids1, rep, traj_index rsz) = Inr (mo, idsF)"
  shows "set idsF \<subseteq> set (map fst (filter snd (zip ids mr)))"
proof
  fix d assume d: "d \<in> set idsF"
  let ?ti = "traj_index rsz"
  note nn = repeat_nonneg [OF rep]
  note ti = traj_index_facts [OF nn]
  note part = surviving_partial [OF len rep c1 k1 la]
  have lmr: "length mr = length ids"
    using np_logical_and_Inr(1) [OF la] len(2) by simp
  have lmo1: "length mo1 = length rep" using length_compress(2) [OF k1] .
  have "\<exists>r < length ids. mr ! r \<and> ids ! r = d"
  proof (cases full)
    case False
    then have "mo = mo1" "idsF = ids1" using w by (simp_all add: widen_def)
    then have "idsF = map fst (filter snd (zip rep mo1))"
      using k1 by (auto simp: np_compress_def split: if_splits)
    then have "set idsF = {rep ! j | j. j < length rep \<and> mo1 ! j}"
      using set_compress [OF lmo1] by (simp only:)
    then obtain j where "j < length rep" "mo1 ! j" "rep ! j = d"
      using d by auto
    then show ?thesis using part by metis
  next
    case True
    then obtain mo2 where s2: "set_rows ?ti (np_where mr) True mo1 = Inr mo2"
      and k2: "np_compress rep mo2 = Inr idsF"
      using w by (auto simp: widen_def split: sum.splits)
    have lmo2: "length mo2 = length rep" using length_compress(2) [OF k2] .
    have idsF: "idsF = map fst (filter snd (zip rep mo2))"
      using k2 by (auto simp: np_compress_def split: if_splits)
    obtain j where j: "j < length rep" "mo2 ! j" "rep ! j = d"
      using d unfolding idsF set_compress [OF lmo2] by auto
    from set_rows_nth [OF s2 ti(2)] have
      nth: "\<forall>j < length mo1. mo2 ! j
         = (if \<exists>i \<in> set (np_where mr). ?ti ! i \<le> int j \<and> int j < ?ti ! Suc i
            then True else mo1 ! j)"
      by simp
    have jl: "j < length mo1" using j(1) lmo1 by simp
    show ?thesis
    proof (cases "mo1 ! j")
      case True
      then show ?thesis using part [OF j(1)] j(3) by metis
    next
      case False
      with nth jl j(2) obtain i where i: "i \<in> set (np_where mr)"
        "?ti ! i \<le> int j" "int j < ?ti ! Suc i"
        by (metis (no_types, lifting))
      have im: "i < length mr" "mr ! i" using i(1) by (simp_all add: set_np_where)
      from obs_row [OF rep len(1) j(1)] obtain r where r: "r < length ids"
        "?ti ! r \<le> int j" "int j < ?ti ! Suc r" "rep ! j = ids ! r"
        by blast
      have "i = r"
      proof (rule row_unique [OF ti(1) _ _ i(2,3) r(2,3)])
        show "Suc i < length ?ti" using im(1) lmr len(1) ti(3) by simp
        show "Suc r < length ?ti" using r(1) len(1) ti(3) by simp
      qed
      then show ?thesis using im(2) r(1,4) j(3) by auto
    qed
  qed
  then obtain r where "r < length ids" "mr ! r" "ids ! r = d" by blast
  then show "d \<in> set (map fst (filter snd (zip ids mr)))"
    unfolding set_compress [OF lmr] by blast
qed

subsection \<open>Dataset subsetter: the ragged invariant of the result\<close>

lemma propagate_compress:
  assumes "propagate ds idv rs masks = Inr (mr, mo1, ids1, rep, ti)"
  shows "np_compress rep mo1 = Inr ids1"
  using assms unfolding propagate_def
  by (auto simp: Let_def split: sum.splits)

lemma widen_compress:
  assumes "widen full (mr, mo1, ids1, rep, ti) = Inr (mo, idsF)"
    and "np_compress rep mo1 = Inr ids1"
  shows "np_compress rep mo = Inr idsF"
  using assms by (auto simp: widen_def split: if_splits sum.splits)

lemma length_selected:
  assumes "length m = length x"
  shows "length (map fst (filter snd (zip x m))) = length (filter id m)"
  using length_compress(1) [of x m "map fst (filter snd (zip x m))"] assms
  by (simp add: np_compress_def)

lemma subset_sum_rowsize:
  assumes "subset ds criteria idv rs rd od full = Inr (w, r)"
    and "r \<noteq> \<lparr>sizes = [], variables = []\<rparr>"
  shows "\<exists>rv' n. map_of (variables r) rs = Some rv' \<and> map_of (sizes r) od = Some n
           \<and> sum_list (vvalues rv') = int n"
proof -
  from assms(1) obtain nr no masks st mo idsF where a:
    "propagate ds idv rs masks = Inr st"
    "widen full st = Inr (mo, idsF)"
    "materialize ds rs rd od (fst st) mo idsF = Inr (w, r)"
    by (rule subset_Inr)
  obtain mr mo1 ids1 rep ti where t: "st = (mr, mo1, ids1, rep, ti)" by (cases st)
  have c: "np_compress rep mo = Inr idsF"
    using widen_compress [OF a(2) [unfolded t] propagate_compress [OF a(1) [unfolded t]]] .
  from a(3) assms(2) obtain ds_sub where m:
    "(if rd = od then isel ds od mo
      else case isel ds rd (fst st) of Inl e \<Rightarrow> Inl e | Inr d \<Rightarrow> isel d od mo) = Inr ds_sub"
    "set_values ds_sub rs (recount_rowsize idsF) = Inr r"
    by (rule materialize_nonempty)
  have sz: "map_of (sizes ds_sub) od = Some (length (filter id mo))"
  proof (cases "rd = od")
    case True
    then show ?thesis using m(1) isel_sizes [of ds od mo ds_sub od] by simp
  next
    case False
    then obtain d where "isel d od mo = Inr ds_sub"
      using m(1) by (auto split: sum.splits)
    then show ?thesis using isel_sizes [of d od mo ds_sub od] by simp
  qed
  obtain v where v: "map_of (variables ds_sub) rs = Some v"
    using set_values_length [OF m(2)] by blast
  have rv: "map_of (variables r) rs = Some (v\<lparr>vvalues := recount_rowsize idsF\<rparr>)"
    using set_values_variables [OF m(2), of rs] v by simp
  have "sum_list (recount_rowsize idsF) = int (length (filter id mo))"
    by (simp only: sum_recount_rowsize length_compress(1) [OF c])
  then show ?thesis
    using rv sz set_values_sizes [OF m(2)] by simp
qed

lemma subset_distinct_ids:
  assumes "subset ds criteria idv rs rd od full = Inr (w, r)"
    and "r \<noteq> \<lparr>sizes = [], variables = []\<rparr>"
    and "ragged_dataset ds idv rs rd od"
  shows "\<exists>iv iv'. map_of (variables ds) idv = Some iv \<and> map_of (variables r) idv = Some iv'
           \<and> distinct (vvalues iv') \<and> set (vvalues iv') \<subseteq> set (vvalues iv)"
proof -
  from assms(3) obtain iv rv where g:
    "rd \<noteq> od" "idv \<noteq> rs"
    "map_of (variables ds) idv = Some iv" "map_of (variables ds) rs = Some rv"
    "vdim iv = rd" "vdim rv = rd" "length (vvalues rv) = length (vvalues iv)"
    by (auto simp: ragged_dataset_def split: option.splits)
  let ?ids = "vvalues iv" and ?rsz = "vvalues rv"
  from assms(1) obtain nr no masks st mo idsF where a:
    "propagate ds idv rs masks = Inr st"
    "widen full st = Inr (mo, idsF)"
    "materialize ds rs rd od (fst st) mo idsF = Inr (w, r)"
    by (rule subset_Inr)
  obtain mr mo1 ids1 rep ti where t: "st = (mr, mo1, ids1, rep, ti)" by (cases st)
  note p = propagate_Inr [OF a(1) [unfolded t] g(3,4)]
  have lmr0: "length (fst masks) = length ?ids"
    using np_logical_and_Inr(2) [OF p(5)] by simp
  have lmr: "length mr = length ?ids"
    using np_logical_and_Inr(1) [OF p(5)] lmr0 by simp
  have sub: "set idsF \<subseteq> set (map fst (filter snd (zip ?ids mr)))"
    using surviving_ids_subset [OF g(7) lmr0 p(3) p(2) [unfolded p(1)] p(4) p(5)
        a(2) [unfolded t p(1)]] .
  from a(3) assms(2) have ex: "list_ex id mr"
    unfolding t fst_conv by (rule materialize_nonempty)
  from materialize_rows [OF ex g(1) a(3) [unfolded t fst_conv]] obtain d1 d2 where m:
    "isel ds rd mr = Inr d1" "isel d1 od mo = Inr d2"
    "set_values d2 rs (recount_rowsize idsF) = Inr r"
    by blast
  let ?C = "map fst (filter snd (zip ?ids mr))"
  have res: "map_of (variables r) idv = Some (iv\<lparr>vvalues := ?C\<rparr>)"
    using materialized_row_variable [OF g(1) m g(2,3,5)] .
  have rs2: "map_of (variables d2) rs
             = Some (rv\<lparr>vvalues := map fst (filter snd (zip ?rsz mr))\<rparr>)"
    using g(1,4,6) isel_variables [OF m(1), of rs] isel_variables [OF m(2), of rs] by simp
  have "length (recount_rowsize idsF) = length (map fst (filter snd (zip ?rsz mr)))"
    using set_values_length [OF m(3)] rs2 by auto
  also have "\<dots> = length (filter id mr)"
    by (rule length_selected) (simp add: lmr g(7))
  also have "\<dots> = length ?C"
    by (rule length_selected [symmetric]) (simp add: lmr)
  finally have "card (set idsF) = length ?C"
    by (simp only: length_recount_rowsize)
  moreover have "card (set idsF) \<le> card (set ?C)"
    by (rule card_mono [OF _ sub]) simp
  moreover have "card (set ?C) \<le> length ?C" by (rule card_length)
  ultimately have "card (set ?C) = length ?C" by simp
  then have d: "distinct ?C" by (rule card_distinct)
  have s: "set ?C \<subseteq> set ?ids"
    unfolding set_compress [OF lmr] by auto
  show ?thesis
    using g(3) res d s by simp
qed

text \<open>
  C2. When \<open>subset\<close> returns a dataset that is not the empty one, the values of the
  result's row-size variable sum to the cardinality of the result's observation
  dimension; and, for a ragged dataset (identifier and row-size variables over the row
  dimension), the identifiers of the rows of the result are pairwise different and are
  identifiers of the original dataset.
\<close>

theorem subset_preserves_ragged_invariant:
  assumes "subset ds criteria idv rs rd od full = Inr (w, r)"
    and "r \<noteq> \<lparr>sizes = [], variables = []\<rparr>"
    and "ragged_dataset ds idv rs rd od"
  shows "(\<exists>rv' n. map_of (variables r) rs = Some rv' \<and> map_of (sizes r) od = Some n
            \<and> sum_list (vvalues rv') = int n)
         \<and> (\<exists>iv iv'. map_of (variables ds) idv = Some iv
               \<and> map_of (variables r) idv = Some iv'
               \<and> distinct (vvalues iv') \<and> set (vvalues iv') \<subseteq> set (vvalues iv))"
  using subset_sum_rowsize [OF assms(1,2)] subset_distinct_ids [OF assms] by blast

theorem subset_preserves_ragged_invariant_witness:
  "subset
     \<lparr>sizes = [(''rows'', 3), (''obs'', 6)],
        variables = [(''id'', \<lparr>vdim = ''rows'', vvalues = [10, 20, 30]\<rparr>),
                     (''rowsize'', \<lparr>vdim = ''rows'', vvalues = [3, 1, 2]\<rparr>),
                     (''lat'', \<lparr>vdim = ''obs'', vvalues = [1, 2, 3, 4, 5, 6]\<rparr>)]\<rparr>
     [(Name ''lat'', Range 2 5)] ''id'' ''rowsize'' ''rows'' ''obs'' False
   = Inr ([],
     \<lparr>sizes = [(''rows'', 3), (''obs'', 4)],
        variables = [(''id'', \<lparr>vdim = ''rows'', vvalues = [10, 20, 30]\<rparr>),
                     (''rowsize'', \<lparr>vdim = ''rows'', vvalues = [2, 1, 1]\<rparr>),
                     (''lat'', \<lparr>vdim = ''obs'', vvalues = [2, 3, 4, 5]\<rparr>)]\<rparr>)
   \<and> (\<exists>rv' n. map_of (variables
     \<lparr>sizes = [(''rows'', 3), (''obs'', 4)],
        variables = [(''id'', \<lparr>vdim = ''rows'', vvalues = [10, 20, 30]\<rparr>),
                     (''rowsize'', \<lparr>vdim = ''rows'', vvalues = [2, 1, 1]\<rparr>),
                     (''lat'', \<lparr>vdim = ''obs'', vvalues = [2, 3, 4, 5]\<rparr>)]\<rparr>) ''rowsize'' = Some rv'
        \<and> map_of (sizes
     \<lparr>sizes = [(''rows'', 3), (''obs'', 4)],
        variables = [(''id'', \<lparr>vdim = ''rows'', vvalues = [10, 20, 30]\<rparr>),
                     (''rowsize'', \<lparr>vdim = ''rows'', vvalues = [2, 1, 1]\<rparr>),
                     (''lat'', \<lparr>vdim = ''obs'', vvalues = [2, 3, 4, 5]\<rparr>)]\<rparr>) ''obs'' = Some n
        \<and> sum_list (vvalues rv') = int n)"
proof -
  let ?ds = "\<lparr>sizes = [(''rows'', 3), (''obs'', 6)],
        variables = [(''id'', \<lparr>vdim = ''rows'', vvalues = [10, 20, 30]\<rparr>),
                     (''rowsize'', \<lparr>vdim = ''rows'', vvalues = [3, 1, 2]\<rparr>),
                     (''lat'', \<lparr>vdim = ''obs'', vvalues = [1, 2, 3, 4, 5, 6]\<rparr>)]\<rparr>"
  let ?r = "\<lparr>sizes = [(''rows'', 3), (''obs'', 4)],
        variables = [(''id'', \<lparr>vdim = ''rows'', vvalues = [10, 20, 30]\<rparr>),
                     (''rowsize'', \<lparr>vdim = ''rows'', vvalues = [2, 1, 1]\<rparr>),
                     (''lat'', \<lparr>vdim = ''obs'', vvalues = [2, 3, 4, 5]\<rparr>)]\<rparr>"
  have s: "subset ?ds [(Name ''lat'', Range 2 5)] ''id'' ''rowsize'' ''rows'' ''obs'' False
           = Inr ([], ?r)"
    by code_simp
  have ne: "?r \<noteq> \<lparr>sizes = [], variables = []\<rparr>" by simp
  have rg: "ragged_dataset ?ds ''id'' ''rowsize'' ''rows'' ''obs''"
    by (simp add: ragged_dataset_def)
  show ?thesis
    using s subset_preserves_ragged_invariant [OF s ne rg] by blast
qed

subsection \<open>Dataset subsetter: full rows after a successful selection\<close>

lemma py_index_in_range:
  assumes "i < length xs"
  shows "py_index xs (int i) = Inr (xs ! i)"
  using assms by (simp add: py_index_def)

lemma set_rows_total:
  assumes "\<forall>i \<in> set rws. Suc i < length ti"
  shows "\<exists>m'. set_rows ti rws v m = Inr m'"
  using assms
proof (induction rws arbitrary: m)
  case Nil
  then show ?case by simp
next
  case (Cons i rws)
  have 1: "py_index ti (int i) = Inr (ti ! i)"
    using Cons.prems by (intro py_index_in_range) simp
  have "py_index ti (int (Suc i)) = Inr (ti ! Suc i)"
    using Cons.prems by (intro py_index_in_range) simp
  then have 2: "py_index ti (int i + 1) = Inr (ti ! Suc i)"
    by (simp add: add.commute)
  show ?case
    using Cons.IH [of "set_slice m (ti ! i) (ti ! Suc i) v"] Cons.prems
    by (simp add: 1 2)
qed

lemma compress_mono:
  assumes "length a = length x" "length b = length x" "\<forall>j < length x. a ! j \<longrightarrow> b ! j"
  shows "set (map fst (filter snd (zip x a))) \<subseteq> set (map fst (filter snd (zip x b)))"
  unfolding set_compress [OF assms(1)] set_compress [OF assms(2)]
  using assms(3) by blast

lemma full_rows_succeeds:
  assumes rg: "ragged_dataset ds idv rs rd od"
    and s1: "subset ds criteria idv rs rd od False = Inr (w1, r1)"
    and ne: "r1 \<noteq> \<lparr>sizes = [], variables = []\<rparr>"
  shows "\<exists>w2 r2. subset ds criteria idv rs rd od True = Inr (w2, r2)"
proof -
  from rg obtain iv rv where g:
    "rd \<noteq> od" "idv \<noteq> rs"
    "map_of (variables ds) idv = Some iv" "map_of (variables ds) rs = Some rv"
    "vdim iv = rd" "vdim rv = rd" "length (vvalues rv) = length (vvalues iv)"
    by (auto simp: ragged_dataset_def split: option.splits)
  let ?ids = "vvalues iv" and ?rsz = "vvalues rv"
  from s1 obtain nr no masks st mo idsP where a:
    "ds_size ds rd = Inr nr" "ds_size ds od = Inr no"
    "apply_criteria ds rs rd od (replicate nr True, replicate no True) criteria = Inr masks"
    "propagate ds idv rs masks = Inr st"
    "widen False st = Inr (mo, idsP)"
    "materialize ds rs rd od (fst st) mo idsP = Inr (w1, r1)"
    by (rule subset_Inr)
  obtain mr mo1 ids1 rep ti where t: "st = (mr, mo1, ids1, rep, ti)" by (cases st)
  have wf: "mo = mo1" "idsP = ids1" using a(5) by (simp_all add: t widen_def)
  note p = propagate_Inr [OF a(4) [unfolded t] g(3,4)]
  note nn = repeat_nonneg [OF p(3)]
  note tf = traj_index_facts [OF nn]
  have lmr0: "length (fst masks) = length ?ids"
    using np_logical_and_Inr(2) [OF p(5)] by simp
  have lmr: "length mr = length ?ids"
    using np_logical_and_Inr(1) [OF p(5)] lmr0 by simp
  have lmo1: "length mo1 = length rep" using length_compress(2) [OF p(4)] .
  let ?C = "map fst (filter snd (zip ?ids mr))"
  have ids1: "ids1 = map fst (filter snd (zip rep mo1))"
    using p(4) by (auto simp: np_compress_def split: if_splits)
  have sub1: "set ids1 \<subseteq> set ?C"
    using surviving_ids_subset [OF g(7) lmr0 p(3) p(2) [unfolded p(1)] p(4) p(5)
        a(5) [unfolded t p(1) wf]] .
  from a(6) ne have ex: "list_ex id mr"
    unfolding t fst_conv by (rule materialize_nonempty)
  from materialize_rows [OF ex g(1) a(6) [unfolded t fst_conv wf]] obtain d1 d2 where m:
    "isel ds rd mr = Inr d1" "isel d1 od mo1 = Inr d2"
    "set_values d2 rs (recount_rowsize ids1) = Inr r1"
    by blast
  have rs2: "map_of (variables d2) rs
             = Some (rv\<lparr>vvalues := map fst (filter snd (zip ?rsz mr))\<rparr>)"
    using g(1,4,6) isel_variables [OF m(1), of rs] isel_variables [OF m(2), of rs] by simp
  have lsel: "length (map fst (filter snd (zip ?rsz mr))) = length ?C"
    using length_selected [of mr ?rsz] length_selected [of mr ?ids] lmr g(7) by simp
  have "length (recount_rowsize ids1) = length (map fst (filter snd (zip ?rsz mr)))"
    using set_values_length [OF m(3)] rs2 by auto
  then have c1: "card (set ids1) = length ?C"
    by (simp only: length_recount_rowsize lsel)
  have "card (set ids1) \<le> card (set ?C)" by (rule card_mono [OF _ sub1]) simp
  moreover have "card (set ?C) \<le> length ?C" by (rule card_length)
  ultimately have cC: "card (set ?C) = length ?C" "card (set ids1) = card (set ?C)"
    using c1 by simp_all
  have eq1: "set ids1 = set ?C"
    by (rule card_subset_eq [OF _ sub1 cC(2)]) simp
  \<comment> \<open>the widening\<close>
  have "\<forall>i \<in> set (np_where mr). Suc i < length ti"
    unfolding p(1) tf(3) using lmr g(7) by (simp add: set_np_where)
  from set_rows_total [OF this, of True mo1] obtain mo2 where
    s2: "set_rows ti (np_where mr) True mo1 = Inr mo2" by blast
  note mono = set_rows_True_mono [OF s2]
  have lmo2: "length mo2 = length rep" using mono lmo1 by simp
  define ids2 where "ids2 = map fst (filter snd (zip rep mo2))"
  have k2: "np_compress rep mo2 = Inr ids2"
    by (simp add: np_compress_def lmo2 ids2_def)
  have w2: "widen True (mr, mo1, ids1, rep, ti) = Inr (mo2, ids2)"
    by (simp add: widen_def s2 k2)
  have sub2: "set ids2 \<subseteq> set ?C"
    using surviving_ids_subset [OF g(7) lmr0 p(3) p(2) [unfolded p(1)] p(4) p(5)
        w2 [unfolded p(1)]] .
  have "set ids1 \<subseteq> set ids2"
    unfolding ids1 ids2_def
    by (rule compress_mono) (use mono lmo1 lmo2 in simp_all)
  then have eq2: "set ids2 = set ?C" using sub2 eq1 by blast
  have l2: "length (recount_rowsize ids2) = length (map fst (filter snd (zip ?rsz mr)))"
    by (simp only: length_recount_rowsize eq2 cC(1) lsel)
  \<comment> \<open>the selection\<close>
  have "map_of (sizes d1) od = Some (length mo1)"
    using m(2) by (auto simp: isel_def split: if_splits)
  then have "map_of (sizes d1) od = Some (length mo2)"
    using lmo1 lmo2 by simp
  then obtain e2 where i2: "isel d1 od mo2 = Inr e2"
    by (simp add: isel_def)
  have rs2': "map_of (variables e2) rs
             = Some (rv\<lparr>vvalues := map fst (filter snd (zip ?rsz mr))\<rparr>)"
    using g(1,4,6) isel_variables [OF m(1), of rs] isel_variables [OF i2, of rs] by simp
  obtain r2 where sv: "set_values e2 rs (recount_rowsize ids2) = Inr r2"
    using rs2' l2 by (simp add: set_values_def)
  have "materialize ds rs rd od mr mo2 ids2 = Inr ([], r2)"
    using ex g(1) by (simp add: materialize_def m(1) i2 sv)
  then have "subset ds criteria idv rs rd od True = Inr ([], r2)"
    by (simp add: subset_def a(1,2,3,4) t w2)
  then show ?thesis by blast
qed

text \<open>
  C5. For a ragged dataset and criteria on which \<open>subset\<close> without \<open>full_rows\<close>
  succeeds with at least one surviving row, \<open>subset\<close> with \<open>full_rows\<close> succeeds too;
  its result has at least as many observations, and both results are selected with one
  and the same row mask: their row dimensions have the same cardinality and every
  variable over the row dimension, the row-size variable apart, has the same values in
  both.
\<close>

theorem full_rows_same_rows_more_observations:
  assumes "ragged_dataset ds idv rs rd od"
    and "subset ds criteria idv rs rd od False = Inr (w1, r1)"
    and "r1 \<noteq> \<lparr>sizes = [], variables = []\<rparr>"
  shows "\<exists>w2 r2 mask_row n1 n2.
           subset ds criteria idv rs rd od True = Inr (w2, r2)
           \<and> map_of (sizes r1) od = Some n1 \<and> map_of (sizes r2) od = Some n2 \<and> n1 \<le> n2
           \<and> map_of (sizes r1) rd = Some (length (filter id mask_row))
           \<and> map_of (sizes r2) rd = Some (length (filter id mask_row))
           \<and> (\<forall>k v. k \<noteq> rs \<and> map_of (variables ds) k = Some v \<and> vdim v = rd \<longrightarrow>
                 map_of (variables r1) k
                   = Some (v\<lparr>vvalues := map fst (filter snd (zip (vvalues v) mask_row))\<rparr>)
                 \<and> map_of (variables r2) k
                   = Some (v\<lparr>vvalues := map fst (filter snd (zip (vvalues v) mask_row))\<rparr>))"
proof -
  have d: "rd \<noteq> od" using assms(1) by (simp add: ragged_dataset_def)
  from full_rows_succeeds [OF assms] obtain w2 r2 where
    s2: "subset ds criteria idv rs rd od True = Inr (w2, r2)" by blast
  from full_rows_both [OF d assms(2) s2 assms(3)] s2 show ?thesis by blast
qed

theorem full_rows_same_rows_more_observations_witness:
  "subset
     \<lparr>sizes = [(''rows'', 3), (''obs'', 6)],
        variables = [(''id'', \<lparr>vdim = ''rows'', vvalues = [10, 20, 30]\<rparr>),
                     (''rowsize'', \<lparr>vdim = ''rows'', vvalues = [3, 1, 2]\<rparr>),
                     (''lat'', \<lparr>vdim = ''obs'', vvalues = [1, 2, 3, 4, 5, 6]\<rparr>)]\<rparr>
     [(Name ''lat'', Range 2 5)] ''id'' ''rowsize'' ''rows'' ''obs'' False
   = Inr ([],
     \<lparr>sizes = [(''rows'', 3), (''obs'', 4)],
        variables = [(''id'', \<lparr>vdim = ''rows'', vvalues = [10, 20, 30]\<rparr>),
                     (''rowsize'', \<lparr>vdim = ''rows'', vvalues = [2, 1, 1]\<rparr>),
                     (''lat'', \<lparr>vdim = ''obs'', vvalues = [2, 3, 4, 5]\<rparr>)]\<rparr>)
   \<and> subset
     \<lparr>sizes = [(''rows'', 3), (''obs'', 6)],
        variables = [(''id'', \<lparr>vdim = ''rows'', vvalues = [10, 20, 30]\<rparr>),
                     (''rowsize'', \<lparr>vdim = ''rows'', vvalues = [3, 1, 2]\<rparr>),
                     (''lat'', \<lparr>vdim = ''obs'', vvalues = [1, 2, 3, 4, 5, 6]\<rparr>)]\<rparr>
     [(Name ''lat'', Range 2 5)] ''id'' ''rowsize'' ''rows'' ''obs'' True
   = Inr ([],
     \<lparr>sizes = [(''rows'', 3), (''obs'', 6)],
        variables = [(''id'', \<lparr>vdim = ''rows'', vvalues = [10, 20, 30]\<rparr>),
                     (''rowsize'', \<lparr>vdim = ''rows'', vvalues = [3, 1, 2]\<rparr>),
                     (''lat'', \<lparr>vdim = ''obs'', vvalues = [1, 2, 3, 4, 5, 6]\<rparr>)]\<rparr>)
   \<and> (\<exists>n1 n2. map_of (sizes
     \<lparr>sizes = [(''rows'', 3), (''obs'', 4)],
        variables = [(''id'', \<lparr>vdim = ''rows'', vvalues = [10, 20, 30]\<rparr>),
                     (''rowsize'', \<lparr>vdim = ''rows'', vvalues = [2, 1, 1]\<rparr>),
                     (''lat'', \<lparr>vdim = ''obs'', vvalues = [2, 3, 4, 5]\<rparr>)]\<rparr>) ''obs'' = Some n1
        \<and> map_of (sizes
     \<lparr>sizes = [(''rows'', 3), (''obs'', 6)],
        variables = [(''id'', \<lparr>vdim = ''rows'', vvalues = [10, 20, 30]\<rparr>),
                     (''rowsize'', \<lparr>vdim = ''rows'', vvalues = [3, 1, 2]\<rparr>),
                     (''lat'', \<lparr>vdim = ''obs'', vvalues = [1, 2, 3, 4, 5, 6]\<rparr>)]\<rparr>) ''obs'' = Some n2 \<and> n1 \<le> n2)"
proof -
  let ?ds = "\<lparr>sizes = [(''rows'', 3), (''obs'', 6)],
        variables = [(''id'', \<lparr>vdim = ''rows'', vvalues = [10, 20, 30]\<rparr>),
                     (''rowsize'', \<lparr>vdim = ''rows'', vvalues = [3, 1, 2]\<rparr>),
                     (''lat'', \<lparr>vdim = ''obs'', vvalues = [1, 2, 3, 4, 5, 6]\<rparr>)]\<rparr>"
  let ?r1 = "\<lparr>sizes = [(''rows'', 3), (''obs'', 4)],
        variables = [(''id'', \<lparr>vdim = ''rows'', vvalues = [10, 20, 30]\<rparr>),
                     (''rowsize'', \<lparr>vdim = ''rows'', vvalues = [2, 1, 1]\<rparr>),
                     (''lat'', \<lparr>vdim = ''obs'', vvalues = [2, 3, 4, 5]\<rparr>)]\<rparr>"
  let ?r2 = "\<lparr>sizes = [(''rows'', 3), (''obs'', 6)],
        variables = [(''id'', \<lparr>vdim = ''rows'', vvalues = [10, 20, 30]\<rparr>),
                     (''rowsize'', \<lparr>vdim = ''rows'', vvalues = [3, 1, 2]\<rparr>),
                     (''lat'', \<lparr>vdim = ''obs'', vvalues = [1, 2, 3, 4, 5, 6]\<rparr>)]\<rparr>"
  have s1: "subset ?ds [(Name ''lat'', Range 2 5)] ''id'' ''rowsize'' ''rows'' ''obs'' False
           = Inr ([], ?r1)"
    by code_simp
  have s2: "subset ?ds [(Name ''lat'', Range 2 5)] ''id'' ''rowsize'' ''rows'' ''obs'' True
           = Inr ([], ?r2)"
    by code_simp
  have ne: "?r1 \<noteq> \<lparr>sizes = [], variables = []\<rparr>" by simp
  have rg: "ragged_dataset ?ds ''id'' ''rowsize'' ''rows'' ''obs''"
    by (simp add: ragged_dataset_def)
  from full_rows_same_rows_more_observations [OF rg s1 ne] obtain w2 r2 n1 n2 where
    "subset ?ds [(Name ''lat'', Range 2 5)] ''id'' ''rowsize'' ''rows'' ''obs'' True
     = Inr (w2, r2)"
    "map_of (sizes ?r1) ''obs'' = Some n1" "map_of (sizes r2) ''obs'' = Some n2" "n1 \<le> n2"
    by blast
  then show ?thesis
    using s1 s2 by auto
qed

end
